theory Spec2Isabelle
  imports Main "HOL-Library.Word"
begin

unbundle bit_operations_syntax

section \<open>Values of the runtime\<close>

text \<open>
  A Node \<open>Buffer\<close> is a list of bytes. A JavaScript string is a list of UTF-16 code
  units; a "binary" string is one whose code units are all below 256. A \<open>Long\<close> is a
  64-bit word, a \<open>uint32\<close> number a 32-bit word.
\<close>

type_synonym byte = "8 word"
type_synonym bytes = "byte list"
type_synonym jsstring = "16 word list"

text \<open>Every exception the two source files can let escape, as a value.\<close>

datatype error =
    InvalidNonce          \<comment> \<open>\<open>throw new Error('Invalid nonce')\<close> in \<open>crypt\<close>\<close>
  | MissingCipherText     \<comment> \<open>\<open>assert(message, 'Missing cipher text')\<close>\<close>
  | MissingPlainText      \<comment> \<open>\<open>assert(message, 'Missing plain text')\<close>\<close>
  | CipherInitError       \<comment> \<open>\<open>createCipheriv\<close>/\<open>createDecipheriv\<close> refuse the key or IV length\<close>
  | DecipherFinalError    \<comment> \<open>\<open>decipher.final()\<close> refuses the padding or the length\<close>
  | TypeError             \<comment> \<open>a method called on \<open>null\<close>, \<open>undefined\<close> or a value of the wrong type\<close>
  | RangeError            \<comment> \<open>a \<open>ByteBuffer\<close> read outside the buffer\<close>
  | KeyParseError         \<comment> \<open>\<open>PrivateKey.fromString\<close>/\<open>PublicKey.fromString\<close> throw\<close>
  | Base58Error           \<comment> \<open>\<open>bs58.decode\<close> throws\<close>
  | DeserializeError      \<comment> \<open>\<open>types.EncryptedMemoD\<close> throws\<close>

text \<open>
  The arguments the source leaves dynamically typed. A nonce reaches \<open>crypt\<close> as a
  \<open>Long\<close> (from the deserializer), as the decimal string \<open>uniqueNonce\<close> returns
  (modelled by the integer it denotes), or not at all. A message is a \<open>Buffer\<close>, a
  binary string, or absent (\<open>null\<close>/\<open>undefined\<close>). A key is a key object, a string
  to be parsed, or absent.
\<close>

datatype nonce_arg = NLong "64 word" | NString int | NAbsent

datatype message_arg = MBuffer bytes | MString jsstring | MAbsent

datatype 'k key_arg = KeyObj 'k | KeyString jsstring | KeyAbsent

text \<open>The object \<open>crypt\<close> returns: \<open>{ nonce, message, checksum: check }\<close>.\<close>

record crypted =
  out_nonce :: "64 word"
  out_message :: bytes
  out_checksum :: "32 word"

text \<open>The memo structure handed to \<open>Types.EncryptedMemo\<close> and returned by
  \<open>types.EncryptedMemoD\<close>.\<close>

record 'pub encrypted_memo =
  memo_check :: "32 word"
  memo_encrypted :: bytes
  memo_from :: 'pub
  memo_nonce :: "64 word"
  memo_to :: 'pub

section \<open>Collaborators and process state\<close>

text \<open>
  The hash functions and the AES-256-CBC cipher of Node's \<open>crypto\<close>, the key classes of
  \<open>./crypto\<close>, \<open>bs58\<close> and the memo (de)serializer are not part of the two files: they
  are parameters of the model. \<open>aes_encrypt key iv m\<close> is
  \<open>Buffer.concat([cipher.update(m), cipher.final()])\<close> for a cipher created with
  \<open>key\<close> and \<open>iv\<close>; \<open>aes_decrypt\<close> is the same for a decipher, \<open>None\<close> when
  \<open>final()\<close> throws.
\<close>

record ('priv, 'pub) library =
  sha512 :: "bytes \<Rightarrow> bytes"
  sha256 :: "bytes \<Rightarrow> bytes"
  aes_encrypt :: "bytes \<Rightarrow> bytes \<Rightarrow> bytes \<Rightarrow> bytes"
  aes_decrypt :: "bytes \<Rightarrow> bytes \<Rightarrow> bytes \<Rightarrow> bytes option"
  get_shared_secret :: "'priv \<Rightarrow> 'pub \<Rightarrow> bytes"
  createPublic :: "'priv \<Rightarrow> 'pub"
  pub_toString :: "'pub \<Rightarrow> jsstring"
  priv_fromString :: "jsstring \<Rightarrow> 'priv option"
  pub_fromString :: "jsstring \<Rightarrow> 'pub option"
  bs58_encode :: "bytes \<Rightarrow> jsstring"
  bs58_decode :: "jsstring \<Rightarrow> bytes option"
  EncryptedMemo :: "'pub encrypted_memo \<Rightarrow> bytes"
  EncryptedMemoD :: "bytes \<Rightarrow> 'pub encrypted_memo option"

text \<open>
  What a call can read and change besides its arguments: the module variable
  \<open>unique_nonce_entropy\<close> (\<open>None\<close> is \<open>null\<close>), the value \<open>Date.now()\<close> returns, the
  two buffers the next two calls of \<open>randomBytes(2)\<close> return, and the ciphers created
  so far (a log the model keeps so that "no cipher was created" can be stated).
\<close>

datatype cipher_event = Cipheriv bytes bytes | Decipheriv bytes bytes

record world =
  unique_nonce_entropy :: "nat option"
  date_now :: nat
  random_bytes :: "(byte \<times> byte) \<times> (byte \<times> byte)"
  cipher_log :: "cipher_event list"

section \<open>Buffers and ByteBuffers\<close>

text \<open>\<open>buf.slice(a, b)\<close>: clamped to the buffer, never an error.\<close>

definition slice :: "nat \<Rightarrow> nat \<Rightarrow> bytes \<Rightarrow> bytes" where
  "slice a b xs = take (b - a) (drop a xs)"

text \<open>\<open>toString('binary')\<close>/\<open>toBinary()\<close>: one code unit per byte; and back
  (\<open>Buffer.from(s, 'binary')\<close>, \<open>ByteBuffer.fromBinary\<close>, \<open>append(s, 'binary')\<close>): the
  low eight bits of each code unit.\<close>

definition toBinary :: "bytes \<Rightarrow> jsstring" where
  "toBinary bs = map ucast bs"

definition fromBinary :: "jsstring \<Rightarrow> bytes" where
  "fromBinary s = map ucast s"

text \<open>\<open>Long.fromNumber\<close> on a non-negative integer: saturating at the largest signed
  value.\<close>

definition Long_fromNumber :: "nat \<Rightarrow> 64 word" where
  "Long_fromNumber v = (if 2 ^ 63 \<le> v + 1 then 2 ^ 63 - 1 else word_of_nat v)"

text \<open>\<open>writeUint64\<close> of a little-endian ByteBuffer: the low 32 bits, then the high 32
  bits, each as four bytes, lowest first.\<close>

definition writeInt32 :: "32 word \<Rightarrow> bytes" where
  "writeInt32 v = [ucast v, ucast (drop_bit 8 v), ucast (drop_bit 16 v), ucast (drop_bit 24 v)]"

definition writeUint64 :: "64 word \<Rightarrow> bytes" where
  "writeUint64 v =
     (let lo = (ucast v :: 32 word); hi = (ucast (drop_bit 32 v) :: 32 word)
      in writeInt32 lo @ writeInt32 hi)"

text \<open>\<open>readUint32\<close> at offset 0 of a little-endian ByteBuffer holding \<open>bs\<close>: a
  \<open>RangeError\<close> unless four bytes are there.\<close>

fun readUint32 :: "bytes \<Rightarrow> error + 32 word" where
  "readUint32 (b0 # b1 # b2 # b3 # rest) =
     Inr ((push_bit 16 (ucast b2) OR push_bit 8 (ucast b1) OR ucast b0) + push_bit 24 (ucast b3))"
| "readUint32 _ = Inl RangeError"

section \<open>helpers/aes: the nonce generator\<close>

text \<open>
  \<open>uniqueNonce\<close>: the entropy is initialised on first use from byte 0 of one
  \<open>randomBytes(2)\<close> and byte 1 of another; each call pre-increments the module variable,
  reduces the new value with \<open>% 0xFFFF\<close> and returns the decimal string of
  \<open>Long.fromNumber(Date.now()).shiftLeft(16).or(Long.fromNumber(entropy))\<close>.
\<close>

definition uniqueNonce :: "world \<Rightarrow> int \<times> world" where
  "uniqueNonce w =
     (let e0 = (case unique_nonce_entropy w of
                  None \<Rightarrow>
                    (let uint8randomArr0 = fst (fst (random_bytes w));
                         uint8randomArr1 = snd (snd (random_bytes w))
                     in push_bit 8 (unat uint8randomArr0) OR unat uint8randomArr1)
                | Some e \<Rightarrow> e);
          e1 = e0 + 1;
          entropy = e1 mod 0xFFFF;
          long = push_bit 16 (Long_fromNumber (date_now w)) OR Long_fromNumber entropy
      in (sint long, w\<lparr>unique_nonce_entropy := Some e1\<rparr>))"

text \<open>\<open>toLongObj\<close>: a \<open>Long\<close> is kept, a string is parsed by \<open>Long.fromString\<close>, a
  falsy value is returned as it is.\<close>

fun toLongObj :: "nonce_arg \<Rightarrow> nonce_arg" where
  "toLongObj (NLong l) = NLong l"
| "toLongObj (NString i) = NLong (word_of_int i)"
| "toLongObj NAbsent = NAbsent"

section \<open>helpers/aes: the cipher primitives\<close>

text \<open>JavaScript truthiness of a message: a \<open>Buffer\<close> is an object and always truthy,
  the empty string, \<open>null\<close> and \<open>undefined\<close> are falsy.\<close>

fun truthy :: "message_arg \<Rightarrow> bool" where
  "truthy (MBuffer b) = True"
| "truthy (MString s) = (s \<noteq> [])"
| "truthy MAbsent = False"

fun toBinaryBuffer :: "message_arg \<Rightarrow> message_arg" where
  "toBinaryBuffer (MBuffer b) = MBuffer b"
| "toBinaryBuffer (MString s) = (if s = [] then MString s else MBuffer (fromBinary s))"
| "toBinaryBuffer MAbsent = MAbsent"

text \<open>Creating an \<open>aes-256-cbc\<close> cipher or decipher: Node checks the key and IV
  lengths; the creation is logged.\<close>

definition createCipheriv :: "world \<Rightarrow> bytes \<Rightarrow> bytes \<Rightarrow> error + world" where
  "createCipheriv w tag iv =
     (if length tag = 32 \<and> length iv = 16
      then Inr (w\<lparr>cipher_log := cipher_log w @ [Cipheriv tag iv]\<rparr>)
      else Inl CipherInitError)"

definition createDecipheriv :: "world \<Rightarrow> bytes \<Rightarrow> bytes \<Rightarrow> error + world" where
  "createDecipheriv w tag iv =
     (if length tag = 32 \<and> length iv = 16
      then Inr (w\<lparr>cipher_log := cipher_log w @ [Decipheriv tag iv]\<rparr>)
      else Inl CipherInitError)"

definition cryptoJsDecrypt ::
  "('priv, 'pub) library \<Rightarrow> world \<Rightarrow> message_arg \<Rightarrow> bytes \<Rightarrow> bytes \<Rightarrow> world \<times> (error + bytes)"
where
  "cryptoJsDecrypt L w msg tag iv =
     (if truthy msg then
        (case toBinaryBuffer msg of
           MBuffer m \<Rightarrow>
             (case createDecipheriv w tag iv of
                Inl e \<Rightarrow> (w, Inl e)
              | Inr w' \<Rightarrow>
                  (case aes_decrypt L tag iv m of
                     None \<Rightarrow> (w', Inl DecipherFinalError)
                   | Some p \<Rightarrow> (w', Inr p)))
         | _ \<Rightarrow> (w, Inl TypeError))
      else (w, Inl MissingCipherText))"

definition cryptoJsEncrypt ::
  "('priv, 'pub) library \<Rightarrow> world \<Rightarrow> message_arg \<Rightarrow> bytes \<Rightarrow> bytes \<Rightarrow> world \<times> (error + bytes)"
where
  "cryptoJsEncrypt L w msg tag iv =
     (if truthy msg then
        (case toBinaryBuffer msg of
           MBuffer m \<Rightarrow>
             (case createCipheriv w tag iv of
                Inl e \<Rightarrow> (w, Inl e)
              | Inr w' \<Rightarrow> (w', Inr (aes_encrypt L tag iv m)))
         | _ \<Rightarrow> (w, Inl TypeError))
      else (w, Inl MissingPlainText))"

section \<open>helpers/aes: crypt, encrypt, decrypt\<close>

text \<open>
  Lines 55 to 67 of \<open>crypt\<close>: the buffer \<open>ebuf\<close> (the nonce written by
  \<open>writeUint64\<close>, then the shared secret appended through a binary string, then copied
  through a binary string), its SHA-512 \<open>encryption_key\<close>, the slices \<open>iv\<close> and
  \<open>tag\<close>, and \<open>check\<close>: the first four bytes of the SHA-256 of \<open>encryption_key\<close>,
  read by \<open>readUint32\<close> from a little-endian ByteBuffer.
\<close>

definition crypt_ebuf :: "64 word \<Rightarrow> bytes \<Rightarrow> bytes" where
  "crypt_ebuf n S = fromBinary (toBinary (writeUint64 n @ fromBinary (toBinary S)))"

definition crypt_encryption_key :: "('priv, 'pub) library \<Rightarrow> 64 word \<Rightarrow> bytes \<Rightarrow> bytes" where
  "crypt_encryption_key L n S = sha512 L (crypt_ebuf n S)"

definition crypt_iv :: "('priv, 'pub) library \<Rightarrow> 64 word \<Rightarrow> bytes \<Rightarrow> bytes" where
  "crypt_iv L n S = slice 32 48 (crypt_encryption_key L n S)"

definition crypt_tag :: "('priv, 'pub) library \<Rightarrow> 64 word \<Rightarrow> bytes \<Rightarrow> bytes" where
  "crypt_tag L n S = slice 0 32 (crypt_encryption_key L n S)"

definition crypt_check :: "('priv, 'pub) library \<Rightarrow> 64 word \<Rightarrow> bytes \<Rightarrow> error + 32 word" where
  "crypt_check L n S =
     readUint32 (fromBinary (toBinary (slice 0 4 (sha256 L (crypt_encryption_key L n S)))))"

text \<open>\<open>if (checksum)\<close>: \<open>undefined\<close>, \<open>null\<close> and the number 0 are falsy.\<close>

fun truthy_checksum :: "32 word option \<Rightarrow> bool" where
  "truthy_checksum None = False"
| "truthy_checksum (Some c) = (c \<noteq> 0)"

text \<open>
  Lines 69 to 75 of \<open>crypt\<close>, with the key material of lines 55 to 67 derived from the
  shared secret \<open>S\<close> and the nonce \<open>n\<close>: the branch on \<open>checksum\<close>, the comparison, the
  cipher primitive and the returned object.
\<close>

definition crypt_with ::
  "('priv, 'pub) library \<Rightarrow> world \<Rightarrow> bytes \<Rightarrow> 64 word \<Rightarrow> message_arg \<Rightarrow> 32 word option \<Rightarrow>
   world \<times> (error + crypted)"
where
  "crypt_with L w S n msg chk =
     (let iv = crypt_iv L n S;
          tag = crypt_tag L n S
      in case crypt_check L n S of
           Inl e \<Rightarrow> (w, Inl e)
         | Inr check \<Rightarrow>
             (if truthy_checksum chk then
                (if Some check \<noteq> chk then (w, Inl InvalidNonce)
                 else
                   (case cryptoJsDecrypt L w msg tag iv of
                      (w', Inl e) \<Rightarrow> (w', Inl e)
                    | (w', Inr m) \<Rightarrow>
                        (w', Inr \<lparr>out_nonce = n, out_message = m, out_checksum = check\<rparr>)))
              else
                (case cryptoJsEncrypt L w msg tag iv of
                   (w', Inl e) \<Rightarrow> (w', Inl e)
                 | (w', Inr m) \<Rightarrow>
                     (w', Inr \<lparr>out_nonce = n, out_message = m, out_checksum = check\<rparr>))))"

text \<open>
  \<open>crypt\<close>: \<open>toLongObj\<close>, the shared secret of the two keys, then the rest. A key that
  is \<open>null\<close> makes \<open>private_key.get_shared_secret(public_key)\<close> a \<open>TypeError\<close>; a nonce
  that \<open>toLongObj\<close> left falsy makes \<open>writeUint64\<close> one.
\<close>

definition crypt ::
  "('priv, 'pub) library \<Rightarrow> world \<Rightarrow> 'priv option \<Rightarrow> 'pub option \<Rightarrow> nonce_arg \<Rightarrow>
   message_arg \<Rightarrow> 32 word option \<Rightarrow> world \<times> (error + crypted)"
where
  "crypt L w private_key public_key nonce_in msg chk =
     (case (private_key, public_key) of
        (Some priv, Some pub) \<Rightarrow>
          (case toLongObj nonce_in of
             NLong n \<Rightarrow> crypt_with L w (get_shared_secret L priv pub) n msg chk
           | _ \<Rightarrow> (w, Inl TypeError))
      | _ \<Rightarrow> (w, Inl TypeError))"

text \<open>\<open>decrypt\<close>: \<open>crypt(...).message\<close>.\<close>

definition decrypt ::
  "('priv, 'pub) library \<Rightarrow> world \<Rightarrow> 'priv option \<Rightarrow> 'pub option \<Rightarrow> nonce_arg \<Rightarrow>
   message_arg \<Rightarrow> 32 word option \<Rightarrow> world \<times> (error + bytes)"
where
  "decrypt L w private_key public_key nonce_in msg chk =
     (case crypt L w private_key public_key nonce_in msg chk of
        (w', Inl e) \<Rightarrow> (w', Inl e)
      | (w', Inr r) \<Rightarrow> (w', Inr (out_message r)))"

section \<open>UTF-8 and length-prefixed strings\<close>

text \<open>
  \<open>Buffer.from(s)\<close> with no encoding, \<open>Buffer.byteLength(s, 'utf8')\<close> and
  \<open>buffer.write(s, 'utf8')\<close> encode a string as UTF-8: a surrogate pair is one code
  point of four bytes, a lone surrogate is written as U+FFFD.
\<close>

definition is_high_surrogate :: "16 word \<Rightarrow> bool" where
  "is_high_surrogate u = (0xD800 \<le> u \<and> u \<le> 0xDBFF)"

definition is_low_surrogate :: "16 word \<Rightarrow> bool" where
  "is_low_surrogate u = (0xDC00 \<le> u \<and> u \<le> 0xDFFF)"

definition unit_code_point :: "16 word \<Rightarrow> nat" where
  "unit_code_point u = (if is_high_surrogate u \<or> is_low_surrogate u then 0xFFFD else unat u)"

fun code_points :: "jsstring \<Rightarrow> nat list" where
  "code_points [] = []"
| "code_points [u] = [unit_code_point u]"
| "code_points (u # v # us) =
     (if is_high_surrogate u \<and> is_low_surrogate v
      then (0x10000 + (unat u - 0xD800) * 1024 + (unat v - 0xDC00)) # code_points us
      else unit_code_point u # code_points (v # us))"

definition utf8_of_cp :: "nat \<Rightarrow> bytes" where
  "utf8_of_cp c =
     (if c < 0x80 then [of_nat c]
      else if c < 0x800 then [of_nat (0xC0 + c div 64), of_nat (0x80 + c mod 64)]
      else if c < 0x10000 then
        [of_nat (0xE0 + c div 4096), of_nat (0x80 + c div 64 mod 64), of_nat (0x80 + c mod 64)]
      else
        [of_nat (0xF0 + c div 262144), of_nat (0x80 + c div 4096 mod 64),
         of_nat (0x80 + c div 64 mod 64), of_nat (0x80 + c mod 64)])"

definition utf8_encode :: "jsstring \<Rightarrow> bytes" where
  "utf8_encode s = concat (map utf8_of_cp (code_points s))"

text \<open>
  \<open>buf.toString('utf-8')\<close> decodes leniently: every maximal ill-formed part becomes
  U+FFFD. The decoder state is the code point so far, the number of continuation bytes
  still needed and the bounds the next byte must lie in.
\<close>

type_synonym utf8_state = "nat \<times> nat \<times> nat \<times> nat"

definition utf8_init :: utf8_state where
  "utf8_init = (0, 0, 0x80, 0xBF)"

definition utf8_lead :: "byte \<Rightarrow> nat list \<times> utf8_state" where
  "utf8_lead b =
     (let v = unat b in
      if v \<le> 0x7F then ([v], utf8_init)
      else if 0xC2 \<le> v \<and> v \<le> 0xDF then ([], (v mod 32, 1, 0x80, 0xBF))
      else if 0xE0 \<le> v \<and> v \<le> 0xEF then
        ([], (v mod 16, 2, if v = 0xE0 then 0xA0 else 0x80, if v = 0xED then 0x9F else 0xBF))
      else if 0xF0 \<le> v \<and> v \<le> 0xF4 then
        ([], (v mod 8, 3, if v = 0xF0 then 0x90 else 0x80, if v = 0xF4 then 0x8F else 0xBF))
      else ([0xFFFD], utf8_init))"

definition utf8_step :: "utf8_state \<Rightarrow> byte \<Rightarrow> nat list \<times> utf8_state" where
  "utf8_step st b =
     (case st of (cp, needed, lo, hi) \<Rightarrow>
        if needed = 0 then utf8_lead b
        else if unat b < lo \<or> hi < unat b then
          (case utf8_lead b of (out, st') \<Rightarrow> (0xFFFD # out, st'))
        else if needed = 1 then ([cp * 64 + unat b mod 64], utf8_init)
        else ([], (cp * 64 + unat b mod 64, needed - 1, 0x80, 0xBF)))"

fun utf8_run :: "utf8_state \<Rightarrow> bytes \<Rightarrow> nat list" where
  "utf8_run st [] = (if fst (snd st) = 0 then [] else [0xFFFD])"
| "utf8_run st (b # bs) = (case utf8_step st b of (out, st') \<Rightarrow> out @ utf8_run st' bs)"

definition utf16_of_cp :: "nat \<Rightarrow> jsstring" where
  "utf16_of_cp c =
     (if c < 0x10000 then [of_nat c]
      else [of_nat (0xD800 + (c - 0x10000) div 1024), of_nat (0xDC00 + (c - 0x10000) mod 1024)])"

definition utf8_decode :: "bytes \<Rightarrow> jsstring" where
  "utf8_decode bs = concat (map utf16_of_cp (utf8_run utf8_init bs))"

text \<open>\<open>writeVarint32\<close>: seven bits per byte, lowest first, the high bit set on all but
  the last.\<close>

fun writeVarint32 :: "nat \<Rightarrow> bytes" where
  "writeVarint32 v =
     (if 0x80 \<le> v then of_nat (v mod 128 + 128) # writeVarint32 (v div 128) else [of_nat v])"

declare writeVarint32.simps [simp del]

text \<open>\<open>writeVString(str)\<close> on a fresh ByteBuffer, then \<open>flip()\<close>: the varint of the
  UTF-8 byte length (as an unsigned 32-bit value), then the UTF-8 bytes.\<close>

definition writeVString :: "jsstring \<Rightarrow> bytes" where
  "writeVString str =
     (let k = length (utf8_encode str) in writeVarint32 (k mod 2 ^ 32) @ utf8_encode str)"

text \<open>
  \<open>readVarint32\<close> from the bytes at the offset, with \<open>c\<close> bytes read and \<open>value\<close>
  accumulated: each byte adds seven bits while \<open>c < 5\<close>; the loop stops after a byte
  without the high bit. The result is the value and the number of bytes read. A varint
  that runs to the end of the buffer ends in an exception of \<open>readVString\<close>, the range
  check that follows in this model.
\<close>

fun readVarint32 :: "bytes \<Rightarrow> nat \<Rightarrow> 32 word \<Rightarrow> 32 word \<times> nat" where
  "readVarint32 [] c v = (v, c + 1)"
| "readVarint32 (b # bs) c v =
     (let v' = (if c < 5 then v OR push_bit (7 * c) (ucast (b AND 0x7F)) else v)
      in if b AND 0x80 \<noteq> 0 then readVarint32 bs (c + 1) v' else (v', c + 1))"

text \<open>
  \<open>readVString\<close> at offset 0 of a ByteBuffer holding \<open>bs\<close> (limit and capacity
  \<open>length bs\<close>): the varint read as a signed 32-bit length, the range checks of
  \<open>readUTF8String\<close>, then that many bytes decoded as UTF-8 (by
  \<open>buffer.toString('utf8', ...)\<close>, as the Node build of the library does). Bytes after
  the announced length are not looked at.
\<close>

definition readVString :: "bytes \<Rightarrow> error + jsstring" where
  "readVString bs =
     (if length bs < 1 then Inl RangeError
      else
        (case readVarint32 bs 0 0 of (v, c) \<Rightarrow>
           if length bs < c then Inl RangeError
           else if int (length bs) < int c + sint v then Inl RangeError
           else Inr (utf8_decode (take (nat (sint v)) (drop c bs)))))"

section \<open>helpers/aes: encrypt\<close>

text \<open>
  \<open>encrypt\<close>: the message is written as a length-prefixed string, the ByteBuffer is
  flipped and turned into a binary string, and \<open>Buffer.from\<close> is called on that string
  with no encoding argument. The fourth argument of \<open>crypt\<close> is \<open>uniqueNonce()\<close>; the
  parameter \<open>nonce\<close> is not used in the body.
\<close>

definition encrypt ::
  "('priv, 'pub) library \<Rightarrow> world \<Rightarrow> 'priv option \<Rightarrow> 'pub option \<Rightarrow> jsstring \<Rightarrow>
   int option \<Rightarrow> world \<times> (error + crypted)"
where
  "encrypt L w private_key public_key msg nonce_in =
     (let mbuf = writeVString msg;
          message = utf8_encode (toBinary mbuf)
      in case uniqueNonce w of
           (n, w') \<Rightarrow> crypt L w' private_key public_key (NString n) (MBuffer message) None)"

section \<open>memo: encode and decode\<close>

definition startsWith_hash :: "jsstring \<Rightarrow> bool" where
  "startsWith_hash s = (case s of [] \<Rightarrow> False | c # cs \<Rightarrow> c = 0x23)"

text \<open>\<open>toPrivateObj\<close>/\<open>toPublicObj\<close>: an object with a \<open>key\<close> is kept, a non-empty
  string is parsed, a falsy value is returned as it is (\<open>None\<close>: nothing a key method
  can be called on).\<close>

definition toPrivateObj :: "('priv, 'pub) library \<Rightarrow> 'priv key_arg \<Rightarrow> error + 'priv option" where
  "toPrivateObj L o_in =
     (case o_in of
        KeyObj k \<Rightarrow> Inr (Some k)
      | KeyString s \<Rightarrow>
          (if s = [] then Inr None
           else (case priv_fromString L s of None \<Rightarrow> Inl KeyParseError | Some k \<Rightarrow> Inr (Some k)))
      | KeyAbsent \<Rightarrow> Inr None)"

definition toPublicObj :: "('priv, 'pub) library \<Rightarrow> 'pub key_arg \<Rightarrow> error + 'pub option" where
  "toPublicObj L o_in =
     (case o_in of
        KeyObj k \<Rightarrow> Inr (Some k)
      | KeyString s \<Rightarrow>
          (if s = [] then Inr None
           else (case pub_fromString L s of None \<Rightarrow> Inl KeyParseError | Some k \<Rightarrow> Inr (Some k)))
      | KeyAbsent \<Rightarrow> Inr None)"

definition encode ::
  "('priv, 'pub) library \<Rightarrow> world \<Rightarrow> 'priv key_arg \<Rightarrow> 'pub key_arg \<Rightarrow> jsstring \<Rightarrow>
   int option \<Rightarrow> world \<times> (error + jsstring)"
where
  "encode L w private_key public_key memo testNonce =
     (if \<not> startsWith_hash memo then (w, Inr memo)
      else
        (let memo1 = drop 1 memo in
         case toPrivateObj L private_key of
           Inl e \<Rightarrow> (w, Inl e)
         | Inr priv \<Rightarrow>
             (case toPublicObj L public_key of
                Inl e \<Rightarrow> (w, Inl e)
              | Inr pub \<Rightarrow>
                  (case encrypt L w priv pub memo1 testNonce of
                     (w', Inl e) \<Rightarrow> (w', Inl e)
                   | (w', Inr r) \<Rightarrow>
                       (case (priv, pub) of
                          (Some sk, Some pk) \<Rightarrow>
                            (let data = EncryptedMemo L
                                   \<lparr>memo_check = out_checksum r,
                                    memo_encrypted = out_message r,
                                    memo_from = createPublic L sk,
                                    memo_nonce = out_nonce r,
                                    memo_to = pk\<rparr>
                             in (w', Inr (0x23 # bs58_encode L data)))
                        | _ \<Rightarrow> (w', Inl TypeError))))))"

text \<open>
  The end of \<open>decode\<close>: the decrypted buffer goes through a binary string into a
  ByteBuffer; \<open>readVString\<close> is tried, and when it throws the whole buffer is decoded as
  UTF-8 instead.
\<close>

definition unframe :: "bytes \<Rightarrow> jsstring" where
  "unframe decrypted =
     (let mbuf = fromBinary (toBinary decrypted) in
      case readVString mbuf of
        Inr s \<Rightarrow> 0x23 # s
      | Inl e \<Rightarrow> 0x23 # utf8_decode (fromBinary (toBinary mbuf)))"

definition decode ::
  "('priv, 'pub) library \<Rightarrow> world \<Rightarrow> 'priv key_arg \<Rightarrow> jsstring \<Rightarrow> world \<times> (error + jsstring)"
where
  "decode L w private_key memo =
     (if \<not> startsWith_hash memo then (w, Inr memo)
      else
        (let memo1 = drop 1 memo in
         case toPrivateObj L private_key of
           Inl e \<Rightarrow> (w, Inl e)
         | Inr priv \<Rightarrow>
             (case bs58_decode L memo1 of
                None \<Rightarrow> (w, Inl Base58Error)
              | Some raw \<Rightarrow>
                  (case EncryptedMemoD L raw of
                     None \<Rightarrow> (w, Inl DeserializeError)
                   | Some m \<Rightarrow>
                       (case priv of
                          None \<Rightarrow> (w, Inl TypeError)
                        | Some sk \<Rightarrow>
                            (let pubkey = pub_toString L (createPublic L sk);
                                 otherpub =
                                   (if pubkey = pub_toString L (memo_from m)
                                    then memo_to m else memo_from m)
                             in case decrypt L w (Some sk) (Some otherpub) (NLong (memo_nonce m))
                                       (MBuffer (memo_encrypted m)) (Some (memo_check m)) of
                                  (w', Inl e) \<Rightarrow> (w', Inl e)
                                | (w', Inr decrypted) \<Rightarrow> (w', Inr (unframe decrypted))))))))"

section \<open>The specification's key schedule\<close>

text \<open>
  The key schedule in the specification's words, to be compared with \<open>crypt\<close>: the
  value of a byte string read little-endian, the little-endian bytes of a number, and
  the triple of AES key, IV and checksum derived from a nonce and a shared secret.
\<close>

definition le_value :: "bytes \<Rightarrow> nat" where
  "le_value bs = horner_sum unat 256 bs"

definition le_bytes :: "nat \<Rightarrow> nat \<Rightarrow> bytes" where
  "le_bytes k v = map (\<lambda>i. of_nat (v div 256 ^ i)) [0..<k]"

definition derive_spec ::
  "(bytes \<Rightarrow> bytes) \<Rightarrow> (bytes \<Rightarrow> bytes) \<Rightarrow> 64 word \<Rightarrow> bytes \<Rightarrow> bytes \<times> bytes \<times> 32 word"
where
  "derive_spec hash512 hash256 n secret =
     (let material = hash512 (le_bytes 8 (unat n) @ secret)
      in (take 32 material, take 16 (drop 32 material),
          of_nat (le_value (take 4 (hash256 material)))))"

text \<open>What the theorems ask of the hash functions: digests of 64 and of 32 bytes.\<close>

definition digest_lengths :: "('priv, 'pub) library \<Rightarrow> bool" where
  "digest_lengths L = (\<forall>x. length (sha512 L x) = 64 \<and> length (sha256 L x) = 32)"

text \<open>
  What a round trip asks of the collaborators: digests of the right lengths, a decipher
  that undoes the cipher under the same key and IV, a Base58 decoder that undoes the
  encoder, and a deserializer that undoes the serializer.
\<close>

definition library_laws :: "('priv, 'pub) library \<Rightarrow> bool" where
  "library_laws L =
     (digest_lengths L \<and>
      (\<forall>key iv m. aes_decrypt L key iv (aes_encrypt L key iv m) = Some m) \<and>
      (\<forall>bs. bs58_decode L (bs58_encode L bs) = Some bs) \<and>
      (\<forall>m. EncryptedMemoD L (EncryptedMemo L m) = Some m))"

section \<open>The specification's length prefix\<close>

text \<open>
  The framing of the plaintext in the specification's words: a variable-length unsigned
  integer prefix that encodes the byte count of the text, then the text. The prefix of
  a byte string is its leading bytes from \<open>0x80\<close> on and the first byte below \<open>0x80\<close>
  after them; it ends within the string when there is such a byte. Its value has seven
  bits per byte, lowest first. A byte string frames a text when its prefix ends and
  its value is the number of bytes that follow the prefix.
\<close>

definition varint_prefix :: "bytes \<Rightarrow> bytes" where
  "varint_prefix bs =
     takeWhile (\<lambda>b. 0x80 \<le> b) bs @ take 1 (dropWhile (\<lambda>b. 0x80 \<le> b) bs)"

definition prefix_ends :: "bytes \<Rightarrow> bool" where
  "prefix_ends bs = (\<exists>b\<in>set bs. b < 0x80)"

definition varint_value :: "bytes \<Rightarrow> nat" where
  "varint_value p = horner_sum (\<lambda>b. unat b mod 128) 128 p"

definition frames_text :: "bytes \<Rightarrow> bool" where
  "frames_text bs =
     (prefix_ends bs \<and> varint_value (varint_prefix bs) + length (varint_prefix bs) = length bs)"

text \<open>
  The length a prefix announces to the reader: the value of its first five bytes as a
  signed 32-bit number. The prefix overruns the byte string when it does not end within
  it (an empty string included) or announces more bytes than follow it.
\<close>

definition announced_length :: "bytes \<Rightarrow> int" where
  "announced_length bs = sint (word_of_nat (varint_value (take 5 (varint_prefix bs))) :: 32 word)"

definition prefix_overruns :: "bytes \<Rightarrow> bool" where
  "prefix_overruns bs =
     (int (length bs) < int (length (varint_prefix bs)) + announced_length bs \<or>
      \<not> prefix_ends bs)"

section \<open>A small library for concrete runs\<close>

text \<open>
  Stand-ins with the shapes of the collaborators, used to run the model on concrete
  inputs: keys are single bytes, the "hashes" return 64 and 32 bytes, the "cipher" is
  invertible, the shared secret is symmetric in the two key pairs, and the memo
  structure has a byte layout that can be read back.
\<close>

definition demo_memo_bytes :: "byte encrypted_memo \<Rightarrow> bytes" where
  "demo_memo_bytes m =
     memo_from m # memo_to m #
       (writeUint64 (memo_nonce m) @ writeInt32 (memo_check m) @ memo_encrypted m)"

definition demo_memo_parse :: "bytes \<Rightarrow> byte encrypted_memo option" where
  "demo_memo_parse bs =
     (case bs of
        f # t # rest \<Rightarrow>
          (if length rest < 12 then None
           else Some \<lparr>memo_check = of_nat (le_value (take 4 (drop 8 rest))),
                      memo_encrypted = drop 12 rest,
                      memo_from = f,
                      memo_nonce = of_nat (le_value (take 8 rest)),
                      memo_to = t\<rparr>)
      | _ \<Rightarrow> None)"

definition demo_library :: "(byte, byte) library" where
  "demo_library =
     \<lparr>sha512 = (\<lambda>bs. replicate 64 (sum_list bs + 1)),
      sha256 = (\<lambda>bs. [sum_list bs + 3, 2, 1, 0] @ replicate 28 5),
      aes_encrypt = (\<lambda>k iv m. map (\<lambda>b. b + 1) m @ [16]),
      aes_decrypt = (\<lambda>k iv c. if c = [] then None else Some (map (\<lambda>b. b - 1) (butlast c))),
      get_shared_secret = (\<lambda>sk pk. [3 * sk * pk]),
      createPublic = (\<lambda>sk. 3 * sk),
      pub_toString = (\<lambda>pk. [ucast pk]),
      priv_fromString = (\<lambda>s. case s of [] \<Rightarrow> None | c # cs \<Rightarrow> Some (ucast c)),
      pub_fromString = (\<lambda>s. case s of [] \<Rightarrow> None | c # cs \<Rightarrow> Some (ucast c)),
      bs58_encode = (\<lambda>bs. map ucast bs),
      bs58_decode = (\<lambda>s. Some (map ucast s)),
      EncryptedMemo = demo_memo_bytes,
      EncryptedMemoD = demo_memo_parse\<rparr>"

definition demo_world :: world where
  "demo_world =
     \<lparr>unique_nonce_entropy = Some 7, date_now = 1700000000000,
      random_bytes = ((0xFF, 0), (0, 0xFE)), cipher_log = []\<rparr>"

section \<open>Bytes, little-endian\<close>

lemma ucast_byte_unit: "ucast (ucast (b :: byte) :: 16 word) = b"
  by (rule bit_word_eqI) (simp add: bit_simps)

lemma fromBinary_toBinary: "fromBinary (toBinary bs) = bs"
  by (simp add: fromBinary_def toBinary_def ucast_byte_unit comp_def)

lemma byte_of_word:
  "(of_nat (unat (v :: 'a::len word) div 2 ^ k) :: byte) = ucast (drop_bit k v)"
  by (rule bit_word_eqI) (simp add: bit_simps flip: drop_bit_eq_div)

lemma upt8: "[0..<8] = [0, 1, 2, 3, 4, 5, 6, 7]"
  by code_simp

lemma le_bytes8:
  "le_bytes 8 (unat (v :: 64 word)) =
     [ucast v, ucast (drop_bit 8 v), ucast (drop_bit 16 v), ucast (drop_bit 24 v),
      ucast (drop_bit 32 v), ucast (drop_bit 40 v), ucast (drop_bit 48 v), ucast (drop_bit 56 v)]"
proof -
  have p: "(256::nat) ^ i = 2 ^ (8 * i)" for i
    by (simp add: power_mult)
  show ?thesis
    unfolding le_bytes_def upt8 p byte_of_word by simp
qed

lemma low_half_byte:
  "k \<le> 24 \<Longrightarrow>
     (ucast (drop_bit k (ucast (v :: 64 word) :: 32 word)) :: byte) = ucast (drop_bit k v)"
  by (rule bit_word_eqI) (auto simp add: bit_simps)

lemma high_half_byte:
  "k \<le> 24 \<Longrightarrow>
     (ucast (drop_bit k (ucast (drop_bit 32 (v :: 64 word)) :: 32 word)) :: byte)
       = ucast (drop_bit (32 + k) v)"
  by (rule bit_word_eqI) (auto simp add: bit_simps ac_simps)

lemma writeUint64_le: "writeUint64 v = le_bytes 8 (unat v)"
  unfolding le_bytes8
  using low_half_byte [of 0 v] low_half_byte [of 8 v] low_half_byte [of 16 v]
    low_half_byte [of 24 v] high_half_byte [of 0 v] high_half_byte [of 8 v]
    high_half_byte [of 16 v] high_half_byte [of 24 v]
  by (simp add: writeUint64_def writeInt32_def)

lemma writeInt32_le: "writeInt32 v = le_bytes 4 (unat v)"
proof -
  have p: "(256::nat) ^ i = 2 ^ (8 * i)" for i
    by (simp add: power_mult)
  have "[0..<4] = [0, 1, 2, 3]"
    by code_simp
  then show ?thesis
    unfolding le_bytes_def writeInt32_def p byte_of_word by simp
qed

lemma readUint32_le:
  "readUint32 (b0 # b1 # b2 # b3 # rest) = Inr (of_nat (le_value [b0, b1, b2, b3]))"
proof -
  define x0 x1 x2 x3 where "x0 = (ucast b0 :: 32 word)" and "x1 = (ucast b1 :: 32 word)"
    and "x2 = (ucast b2 :: 32 word)" and "x3 = (ucast b3 :: 32 word)"
  have a1: "push_bit 8 x1 AND x0 = 0"
    unfolding x0_def x1_def
    by (rule bit_word_eqI) (auto simp add: bit_simps dest: bit_imp_le_length)
  have a2: "push_bit 16 x2 AND (push_bit 8 x1 OR x0) = 0"
    unfolding x0_def x1_def x2_def
    by (rule bit_word_eqI) (auto simp add: bit_simps dest: bit_imp_le_length)
  have "push_bit 16 x2 OR push_bit 8 x1 OR x0 = push_bit 16 x2 + (push_bit 8 x1 + x0)"
    using a1 a2 by (simp add: disjunctive_add_eq_or)
  then show ?thesis
    by (simp add: le_value_def push_bit_eq_mult flip: x0_def x1_def x2_def x3_def)
qed

lemma four_bytes:
  assumes "4 \<le> length (xs :: bytes)"
  obtains b0 b1 b2 b3 rest where "xs = b0 # b1 # b2 # b3 # rest"
proof -
  obtain b0 r0 where 0: "xs = b0 # r0" using assms by (cases xs) auto
  obtain b1 r1 where 1: "r0 = b1 # r1" using assms 0 by (cases r0) auto
  obtain b2 r2 where 2: "r1 = b2 # r2" using assms 0 1 by (cases r1) auto
  obtain b3 r3 where 3: "r2 = b3 # r3" using assms 0 1 2 by (cases r2) auto
  show ?thesis using that 0 1 2 3 by simp
qed

lemma le_bytes_Suc: "le_bytes (Suc k) x = of_nat x # le_bytes k (x div 256)"
proof -
  have "[0..<Suc k] = 0 # map Suc [0..<k]"
    by (simp add: upt_conv_Cons map_Suc_upt del: upt_Suc)
  then show ?thesis
    by (simp add: le_bytes_def comp_def div_mult2_eq del: upt_Suc)
qed

lemma length_le_bytes: "length (le_bytes k x) = k"
  by (simp add: le_bytes_def)

lemma le_value_le_bytes: "le_value (le_bytes k x) = x mod 256 ^ k"
proof (induction k arbitrary: x)
  case 0
  show ?case by (simp add: le_bytes_def le_value_def)
next
  case (Suc k)
  have "le_value (le_bytes (Suc k) x) = x mod 256 + 256 * le_value (le_bytes k (x div 256))"
    by (simp add: le_bytes_Suc le_value_def unat_of_nat)
  also have "\<dots> = x mod 256 + 256 * (x div 256 mod 256 ^ k)"
    by (simp add: Suc.IH)
  also have "\<dots> = x mod 256 ^ Suc k"
    by (simp add: mod_mult2_eq)
  finally show ?case .
qed

lemma le_value_writeUint64: "of_nat (le_value (writeUint64 n)) = n"
proof -
  have "unat n < 256 ^ 8"
    using unsigned_less [of n, where ?'a = nat] by simp
  then show ?thesis
    by (simp add: writeUint64_le le_value_le_bytes)
qed

lemma le_value_writeInt32: "of_nat (le_value (writeInt32 c)) = c"
proof -
  have "unat c < 256 ^ 4"
    using unsigned_less [of c, where ?'a = nat] by simp
  then show ?thesis
    by (simp add: writeInt32_le le_value_le_bytes)
qed

lemma length_writeUint64: "length (writeUint64 n) = 8"
  by (simp add: writeUint64_le length_le_bytes)

lemma length_writeInt32: "length (writeInt32 c) = 4"
  by (simp add: writeInt32_def)

section \<open>The key material of crypt\<close>

lemma crypt_ebuf_le: "crypt_ebuf n S = le_bytes 8 (unat n) @ S"
  by (simp add: crypt_ebuf_def fromBinary_toBinary writeUint64_le)

lemma crypt_check_le:
  assumes "4 \<le> length (sha256 L (crypt_encryption_key L n S))"
  shows "crypt_check L n S =
           Inr (of_nat (le_value (take 4 (sha256 L (crypt_encryption_key L n S)))))"
proof -
  obtain b0 b1 b2 b3 rest
    where d: "sha256 L (crypt_encryption_key L n S) = b0 # b1 # b2 # b3 # rest"
    using assms by (rule four_bytes)
  show ?thesis
    by (simp add: crypt_check_def fromBinary_toBinary slice_def d readUint32_le
        del: readUint32.simps)
qed

lemma key_material_spec:
  assumes "digest_lengths L"
  shows "(crypt_tag L n S, crypt_iv L n S, crypt_check L n S) =
           (case derive_spec (sha512 L) (sha256 L) n S of (key, iv, chk) \<Rightarrow> (key, iv, Inr chk))"
proof -
  have "4 \<le> length (sha256 L (crypt_encryption_key L n S))"
    using assms by (simp add: digest_lengths_def)
  then show ?thesis
    by (simp add: crypt_check_le derive_spec_def crypt_tag_def crypt_iv_def slice_def
        crypt_encryption_key_def crypt_ebuf_le Let_def)
qed

lemma key_material_lengths:
  assumes "digest_lengths L"
  shows "length (crypt_tag L n S) = 32" and "length (crypt_iv L n S) = 16"
  using assms
  by (simp_all add: digest_lengths_def crypt_tag_def crypt_iv_def slice_def
      crypt_encryption_key_def)

lemma crypt_check_defined:
  assumes "digest_lengths L"
  obtains c where "crypt_check L n S = Inr c"
  using assms crypt_check_le [of L n S] by (simp add: digest_lengths_def)

section \<open>The two branches of crypt\<close>

lemma cryptoJsEncrypt_buffer:
  "length tag = 32 \<Longrightarrow> length iv = 16 \<Longrightarrow>
     cryptoJsEncrypt L w (MBuffer m) tag iv =
       (w\<lparr>cipher_log := cipher_log w @ [Cipheriv tag iv]\<rparr>, Inr (aes_encrypt L tag iv m))"
  by (simp add: cryptoJsEncrypt_def createCipheriv_def)

lemma cryptoJsEncrypt_string:
  "length tag = 32 \<Longrightarrow> length iv = 16 \<Longrightarrow> s \<noteq> [] \<Longrightarrow>
     cryptoJsEncrypt L w (MString s) tag iv =
       (w\<lparr>cipher_log := cipher_log w @ [Cipheriv tag iv]\<rparr>,
        Inr (aes_encrypt L tag iv (fromBinary s)))"
  by (simp add: cryptoJsEncrypt_def createCipheriv_def)

lemma cryptoJsEncrypt_falsy:
  "\<not> truthy msg \<Longrightarrow> cryptoJsEncrypt L w msg tag iv = (w, Inl MissingPlainText)"
  by (simp add: cryptoJsEncrypt_def)

lemma cryptoJsDecrypt_falsy:
  "\<not> truthy msg \<Longrightarrow> cryptoJsDecrypt L w msg tag iv = (w, Inl MissingCipherText)"
  by (simp add: cryptoJsDecrypt_def)

lemma cryptoJsDecrypt_buffer:
  "length tag = 32 \<Longrightarrow> length iv = 16 \<Longrightarrow>
     cryptoJsDecrypt L w (MBuffer m) tag iv =
       (case aes_decrypt L tag iv m of
          None \<Rightarrow> (w\<lparr>cipher_log := cipher_log w @ [Decipheriv tag iv]\<rparr>, Inl DecipherFinalError)
        | Some p \<Rightarrow> (w\<lparr>cipher_log := cipher_log w @ [Decipheriv tag iv]\<rparr>, Inr p))"
  by (simp add: cryptoJsDecrypt_def createDecipheriv_def)

lemma crypt_with_falsy_checksum:
  assumes "crypt_check L n S = Inr c" and "\<not> truthy_checksum chk"
  shows "crypt_with L w S n msg chk =
           (case cryptoJsEncrypt L w msg (crypt_tag L n S) (crypt_iv L n S) of
              (w', Inl e) \<Rightarrow> (w', Inl e)
            | (w', Inr m) \<Rightarrow> (w', Inr \<lparr>out_nonce = n, out_message = m, out_checksum = c\<rparr>))"
  using assms by (simp add: crypt_with_def)

lemma crypt_with_mismatch:
  assumes "crypt_check L n S = Inr c" and "expected \<noteq> 0" and "c \<noteq> expected"
  shows "crypt_with L w S n msg (Some expected) = (w, Inl InvalidNonce)"
  using assms by (simp add: crypt_with_def)

lemma crypt_with_match:
  assumes "crypt_check L n S = Inr c" and "c \<noteq> 0"
  shows "crypt_with L w S n msg (Some c) =
           (case cryptoJsDecrypt L w msg (crypt_tag L n S) (crypt_iv L n S) of
              (w', Inl e) \<Rightarrow> (w', Inl e)
            | (w', Inr m) \<Rightarrow> (w', Inr \<lparr>out_nonce = n, out_message = m, out_checksum = c\<rparr>))"
  using assms by (simp add: crypt_with_def)

lemma crypt_typed:
  "crypt L w (Some priv) (Some pub) (NLong n) msg chk =
     crypt_with L w (get_shared_secret L priv pub) n msg chk"
  by (simp add: crypt_def)

lemma decrypt_typed:
  "decrypt L w (Some priv) (Some pub) (NLong n) msg chk =
     (case crypt_with L w (get_shared_secret L priv pub) n msg chk of
        (w', Inl e) \<Rightarrow> (w', Inl e)
      | (w', Inr r) \<Rightarrow> (w', Inr (out_message r)))"
  by (simp add: decrypt_def crypt_typed)

section \<open>encrypt, encode and decode on typed arguments\<close>

lemma encrypt_typed:
  assumes "digest_lengths L" and "uniqueNonce w = (i, w')"
  shows "encrypt L w (Some priv) (Some pub) msg nonce_in =
           (w'\<lparr>cipher_log := cipher_log w' @
                 [Cipheriv (crypt_tag L (word_of_int i) (get_shared_secret L priv pub))
                           (crypt_iv L (word_of_int i) (get_shared_secret L priv pub))]\<rparr>,
            Inr \<lparr>out_nonce = word_of_int i,
                 out_message =
                   aes_encrypt L (crypt_tag L (word_of_int i) (get_shared_secret L priv pub))
                     (crypt_iv L (word_of_int i) (get_shared_secret L priv pub))
                     (utf8_encode (toBinary (writeVString msg))),
                 out_checksum =
                   of_nat (le_value (take 4 (sha256 L
                     (crypt_encryption_key L (word_of_int i) (get_shared_secret L priv pub)))))\<rparr>)"
proof -
  have "4 \<le> length (sha256 L (crypt_encryption_key L (word_of_int i) (get_shared_secret L priv pub)))"
    using assms(1) by (simp add: digest_lengths_def)
  then show ?thesis
    using assms(2)
    by (simp add: encrypt_def crypt_def crypt_with_falsy_checksum [OF crypt_check_le]
        cryptoJsEncrypt_buffer key_material_lengths [OF assms(1)])
qed

lemma encode_typed:
  assumes "digest_lengths L" and "uniqueNonce w = (i, w')" and "startsWith_hash memo"
  shows "encode L w (KeyObj a) (KeyObj B) memo testNonce =
           (w'\<lparr>cipher_log := cipher_log w' @
                 [Cipheriv (crypt_tag L (word_of_int i) (get_shared_secret L a B))
                           (crypt_iv L (word_of_int i) (get_shared_secret L a B))]\<rparr>,
            Inr (0x23 # bs58_encode L (EncryptedMemo L
              \<lparr>memo_check =
                 of_nat (le_value (take 4 (sha256 L
                   (crypt_encryption_key L (word_of_int i) (get_shared_secret L a B))))),
               memo_encrypted =
                 aes_encrypt L (crypt_tag L (word_of_int i) (get_shared_secret L a B))
                   (crypt_iv L (word_of_int i) (get_shared_secret L a B))
                   (utf8_encode (toBinary (writeVString (drop 1 memo)))),
               memo_from = createPublic L a,
               memo_nonce = word_of_int i,
               memo_to = B\<rparr>)))"
  using assms(3)
  by (simp add: encode_def toPrivateObj_def toPublicObj_def encrypt_typed [OF assms(1,2)])

lemma decode_typed:
  assumes "startsWith_hash memo"
    and "toPrivateObj L private_key = Inr (Some sk)"
    and "bs58_decode L (drop 1 memo) = Some raw"
    and "EncryptedMemoD L raw = Some m"
  shows "decode L w private_key memo =
           (case decrypt L w (Some sk)
                   (Some (if pub_toString L (createPublic L sk) = pub_toString L (memo_from m)
                          then memo_to m else memo_from m))
                   (NLong (memo_nonce m)) (MBuffer (memo_encrypted m)) (Some (memo_check m)) of
              (w', Inl e) \<Rightarrow> (w', Inl e)
            | (w', Inr decrypted) \<Rightarrow> (w', Inr (unframe decrypted)))"
  using assms by (simp add: decode_def)

section \<open>Framing of short ASCII text\<close>

lemma writeVarint32_small: "v < 128 \<Longrightarrow> writeVarint32 v = [of_nat v]"
  by (simp add: writeVarint32.simps)

lemma ascii_byte_low: "(b :: byte) < 0x80 \<Longrightarrow> b AND 0x7F = b"
  using less_mask_eq [of b 7] by (simp add: mask_eq_exp_minus_1)

lemma ascii_byte_high: "(b :: byte) < 0x80 \<Longrightarrow> b AND 0x80 = 0"
proof -
  assume "b < 0x80"
  then have "b AND 0x80 = (b AND 0x7F) AND 0x80"
    by (simp add: ascii_byte_low)
  also have "\<dots> = b AND (0x7F AND 0x80)"
    by (simp only: and.assoc)
  also have "\<dots> = 0"
    by simp
  finally show ?thesis .
qed

lemma sint_ucast_byte: "sint (ucast (b :: byte) :: 32 word) = int (unat b)"
proof -
  have "uint b < 2 ^ 8"
    using unsigned_less [of b, where ?'a = int] by simp
  moreover have "- (2 ^ 31) \<le> uint b"
    by (rule order_trans [of _ 0]) simp_all
  ultimately have "signed_take_bit 31 (uint b) = uint b"
    by (intro signed_take_bit_int_eq_self) simp_all
  then show ?thesis
    by (simp add: signed_ucast_eq)
qed

lemma unit_ascii_nat: "(u :: 16 word) < 0x80 \<Longrightarrow> unat u < 128"
  by (simp add: word_less_nat_alt)

lemma byte_ascii_nat: "(b :: byte) < 0x80 \<Longrightarrow> unat b < 128"
  by (simp add: word_less_nat_alt)

lemma unit_code_point_ascii: "(u :: 16 word) < 0x80 \<Longrightarrow> unit_code_point u = unat u"
  by (auto simp add: unit_code_point_def is_high_surrogate_def is_low_surrogate_def
      word_less_nat_alt word_le_nat_alt)

lemma code_points_ascii: "\<forall>u\<in>set t. u < 0x80 \<Longrightarrow> code_points t = map unat t"
proof (induction t rule: code_points.induct)
  case 1
  show ?case by simp
next
  case (2 u)
  then show ?case by (simp add: unit_code_point_ascii)
next
  case (3 u v us)
  then have "\<not> is_high_surrogate u"
    by (auto simp add: is_high_surrogate_def word_less_nat_alt word_le_nat_alt)
  with 3 show ?case
    by (simp add: unit_code_point_ascii)
qed

lemma utf8_encode_ascii:
  assumes "\<forall>u\<in>set t. u < 0x80"
  shows "utf8_encode t = map ucast t"
proof -
  have "utf8_of_cp (unat u) = [ucast u]" if "u \<in> set t" for u
    using assms that unit_ascii_nat [of u] by (simp add: utf8_of_cp_def)
  then have "map utf8_of_cp (map unat t) = map (\<lambda>u. [ucast u]) t"
    by simp
  then show ?thesis
    by (simp add: utf8_encode_def code_points_ascii [OF assms] del: map_map)
qed

lemma length_utf8_encode_ascii: "\<forall>u\<in>set t. u < 0x80 \<Longrightarrow> length (utf8_encode t) = length t"
  by (simp add: utf8_encode_ascii)

lemma writeVString_ascii:
  assumes "\<forall>u\<in>set t. u < 0x80" and "length t < 128"
  shows "writeVString t = of_nat (length t) # map ucast t"
  using assms by (simp add: writeVString_def utf8_encode_ascii writeVarint32_small)

lemma ucast_unit_ascii:
  assumes "(u :: 16 word) < 0x80"
  shows "(ucast u :: byte) < 0x80"
proof -
  have "unat (ucast u :: byte) = take_bit 8 (unat u)"
    by (simp add: unsigned_ucast_eq)
  also have "\<dots> \<le> unat u"
    by (rule take_bit_nat_less_eq_self)
  also have "\<dots> < 128"
    using assms by (rule unit_ascii_nat)
  finally show ?thesis
    by (simp add: word_less_nat_alt)
qed

lemma ucast_byte_ascii:
  assumes "(b :: byte) < 0x80"
  shows "(ucast b :: 16 word) < 0x80"
proof -
  have "unat (ucast b :: 16 word) = take_bit 16 (unat b)"
    by (simp add: unsigned_ucast_eq)
  also have "\<dots> \<le> unat b"
    by (rule take_bit_nat_less_eq_self)
  also have "\<dots> < 128"
    using assms by (rule byte_ascii_nat)
  finally show ?thesis
    by (simp add: word_less_nat_alt)
qed

lemma of_nat_length_ascii: "n < 128 \<Longrightarrow> (of_nat n :: byte) < 0x80"
  by (simp add: word_less_nat_alt unat_of_nat)

lemma utf8_encode_binary_ascii:
  assumes "\<forall>b\<in>set bs. b < 0x80"
  shows "utf8_encode (toBinary bs) = bs"
proof -
  have "\<forall>u\<in>set (toBinary bs). u < 0x80"
    using assms by (simp add: toBinary_def ucast_byte_ascii)
  then have "utf8_encode (toBinary bs) = map ucast (toBinary bs)"
    by (rule utf8_encode_ascii)
  then show ?thesis
    by (simp add: toBinary_def comp_def ucast_byte_unit)
qed

lemma utf8_run_ascii:
  "\<forall>b\<in>set bs. b < 0x80 \<Longrightarrow> utf8_run utf8_init bs = map unat bs"
proof (induction bs)
  case Nil
  show ?case by (simp add: utf8_init_def)
next
  case (Cons b bs)
  then have "unat b < 128"
    by (simp add: byte_ascii_nat)
  then have "utf8_step utf8_init b = ([unat b], utf8_init)"
    by (simp add: utf8_step_def utf8_init_def utf8_lead_def)
  with Cons show ?case
    by simp
qed

lemma utf8_decode_ascii:
  assumes "\<forall>b\<in>set bs. b < 0x80"
  shows "utf8_decode bs = map ucast bs"
proof -
  have "utf16_of_cp (unat b) = [ucast b]" for b :: byte
  proof -
    have "unat b < 2 ^ 8"
      using unsigned_less [of b, where ?'a = nat] by simp
    then show ?thesis
      by (simp add: utf16_of_cp_def)
  qed
  then have "map utf16_of_cp (map unat bs) = map (\<lambda>b. [ucast b]) bs"
    by simp
  then show ?thesis
    by (simp add: utf8_decode_def utf8_run_ascii [OF assms] del: map_map)
qed

lemma readVString_ascii:
  assumes "\<forall>b\<in>set bs. b < 0x80" and "length bs < 128"
  shows "readVString (of_nat (length bs) # bs) = Inr (map ucast bs)"
proof -
  let ?n = "of_nat (length bs) :: byte"
  have n: "?n < 0x80"
    using assms(2) by (rule of_nat_length_ascii)
  have r: "readVarint32 (?n # bs) 0 0 = (ucast ?n, 1)"
    using n by (simp add: ascii_byte_low ascii_byte_high)
  have s: "sint (ucast ?n :: 32 word) = int (length bs)"
    using assms(2) by (simp add: sint_ucast_byte unat_of_nat)
  show ?thesis
    by (simp add: readVString_def r s utf8_decode_ascii [OF assms(1)]
        del: readVarint32.simps)
qed

lemma ucast_unit_round_trip:
  assumes "(u :: 16 word) < 0x80"
  shows "(ucast (ucast u :: byte) :: 16 word) = u"
proof (rule bit_word_eqI)
  fix n
  have "u AND mask 7 = u"
    using assms less_mask_eq [of u 7] by simp
  then have "bit u n \<Longrightarrow> n < 7"
    by (metis bit_and_iff bit_mask_iff)
  then show "bit (ucast (ucast u :: byte) :: 16 word) n = bit u n"
    by (auto simp add: bit_simps)
qed

text \<open>
  A text of fewer than 128 ASCII characters survives what \<open>encrypt\<close> does before the
  cipher and what \<open>decode\<close> does after the decipher.
\<close>

lemma unframe_framed_ascii:
  assumes "\<forall>u\<in>set t. u < 0x80" and "length t < 128"
  shows "unframe (utf8_encode (toBinary (writeVString t))) = 0x23 # t"
proof -
  let ?bs = "map ucast t :: bytes"
  have a: "\<forall>b\<in>set ?bs. b < 0x80"
    using assms(1) by (simp add: ucast_unit_ascii)
  have "\<forall>b\<in>set (of_nat (length t) # ?bs). b < 0x80"
    using a assms(2) by (simp add: of_nat_length_ascii)
  then have "utf8_encode (toBinary (writeVString t)) = of_nat (length ?bs) # ?bs"
    by (simp add: writeVString_ascii [OF assms] utf8_encode_binary_ascii)
  moreover have "readVString (of_nat (length ?bs) # ?bs) = Inr (map ucast ?bs)"
    using a assms(2) by (intro readVString_ascii) simp_all
  moreover have "map ucast ?bs = t"
    using assms(1) by (simp add: comp_def ucast_unit_round_trip map_idI)
  ultimately show ?thesis
    by (simp add: unframe_def fromBinary_toBinary)
qed


section \<open>The length-prefixed read\<close>

lemma high_bit_iff: "(b AND 0x80 \<noteq> 0) = (0x80 \<le> (b :: byte))"
proof
  assume n: "b AND 0x80 \<noteq> 0"
  show "0x80 \<le> b"
  proof (rule ccontr)
    assume "\<not> 0x80 \<le> b"
    then have "b < 0x80"
      by simp
    then show False
      using n by (simp add: ascii_byte_high)
  qed
next
  assume h: "0x80 \<le> b"
  show "b AND 0x80 \<noteq> 0"
  proof
    assume z: "b AND 0x80 = 0"
    have "\<not> bit b 7"
      using and_exp_eq_0_iff_not_bit [of b 7] z by simp
    then have "take_bit 7 b = b"
      by (intro bit_word_eqI) (auto simp add: bit_simps less_Suc_eq numeral_eq_Suc)
    then have "take_bit 7 (unat b) = unat b"
      by (metis unsigned_take_bit_eq)
    then have "unat b < 2 ^ 7"
      by (simp only: take_bit_nat_eq_self_iff)
    then show False
      using h by (simp add: word_le_nat_alt)
  qed
qed

lemma seven_low_bits: "(word_of_nat (unat (b :: byte) mod 128) :: 32 word) = ucast (b AND 0x7F)"
proof -
  have "(0x7F :: byte) = mask 7"
    by (simp add: mask_eq_exp_minus_1)
  then have "unat (b AND 0x7F) = unat (take_bit 7 b)"
    by (simp only: take_bit_eq_mask)
  also have "\<dots> = take_bit 7 (unat b)"
    by (rule unsigned_take_bit_eq)
  also have "\<dots> = unat b mod 2 ^ 7"
    by (rule take_bit_eq_mod)
  finally have "unat (b AND 0x7F) = unat b mod 128"
    by simp
  moreover have "(ucast (b AND 0x7F) :: 32 word) = word_of_nat (unat (b AND 0x7F))"
    by simp
  ultimately show ?thesis
    by simp
qed


lemma varint_prefix_Nil: "varint_prefix [] = []"
  by (simp add: varint_prefix_def)

lemma varint_prefix_Cons:
  "varint_prefix (b # bs) = (if 0x80 \<le> b then b # varint_prefix bs else [b])"
  by (simp add: varint_prefix_def)

lemma varint_value_Cons: "varint_value (b # p) = unat b mod 128 + 128 * varint_value p"
  by (simp add: varint_value_def)

lemma word_of_base_128:
  assumes "x < 128"
  shows "(word_of_nat (x + 128 * y) :: 32 word) = word_of_nat x OR push_bit 7 (word_of_nat y)"
proof -
  have "take_bit 7 x = x"
    using assms by (simp add: take_bit_nat_eq_self_iff)
  then have low: "bit x n \<Longrightarrow> n < 7" for n
    by (metis bit_take_bit_iff)
  have "(word_of_nat x :: 32 word) AND push_bit 7 (word_of_nat y) = 0"
    by (intro bit_word_eqI) (auto simp add: bit_simps dest: low)
  then have "(word_of_nat x :: 32 word) + push_bit 7 (word_of_nat y)
               = word_of_nat x OR push_bit 7 (word_of_nat y)"
    by (rule disjunctive_add_eq_or)
  then show ?thesis
    by (simp add: push_bit_eq_mult mult.commute)
qed

lemma readVarint32_value:
  "fst (readVarint32 bs c v) =
     v OR push_bit (7 * c) (word_of_nat (varint_value (take (5 - c) (varint_prefix bs))))"
proof (induction bs arbitrary: c v)
  case Nil
  show ?case by (simp add: varint_prefix_Nil varint_value_def)
next
  case (Cons b bs)
  show ?case
  proof (cases "c < 5")
    case True
    then have t: "5 - c = Suc (5 - Suc c)"
      by simp
    have w: "(word_of_nat (unat b mod 128 + 128 * y) :: 32 word) =
               ucast (b AND 0x7F) OR push_bit 7 (word_of_nat y)" for y
      using word_of_base_128 [of "unat b mod 128" y] by (simp add: seven_low_bits)
    show ?thesis
      using True
      by (simp add: Cons.IH varint_prefix_Cons varint_value_Cons high_bit_iff t w
          or.assoc varint_value_def [of "[]"] seven_low_bits add.commute [of 7]
          del: of_nat_add of_nat_mult)
  next
    case False
    then show ?thesis
      by (simp add: Cons.IH varint_value_def)
  qed
qed

lemma readVarint32_count:
  "snd (readVarint32 bs c v) = c + length (takeWhile (\<lambda>b. 0x80 \<le> b) bs) + 1"
  by (induction bs arbitrary: c v) (simp_all add: high_bit_iff Let_def)

lemma readVarint32_start:
  "readVarint32 bs 0 0 =
     (word_of_nat (varint_value (take 5 (varint_prefix bs))),
      length (takeWhile (\<lambda>b. 0x80 \<le> b) bs) + 1)"
  using readVarint32_value [of bs 0 0] readVarint32_count [of bs 0 0]
  by (cases "readVarint32 bs 0 0") simp


lemma prefix_ends_iff: "prefix_ends bs = (dropWhile (\<lambda>b. 0x80 \<le> b) bs \<noteq> [])"
  by (auto simp add: prefix_ends_def not_le [symmetric])

lemma length_varint_prefix:
  "length (varint_prefix bs) =
     length (takeWhile (\<lambda>b. 0x80 \<le> b) bs) + (if prefix_ends bs then 1 else 0)"
  by (cases "dropWhile (\<lambda>b. 0x80 \<le> b) bs") (simp_all add: varint_prefix_def prefix_ends_iff)

lemma length_takeWhile_dropWhile:
  "length (takeWhile P xs) + length (dropWhile P xs) = length xs"
  by (metis length_append takeWhile_dropWhile_id)

text \<open>
  \<open>readVString\<close> throws exactly when the prefix overruns the buffer; otherwise it
  returns the announced number of bytes after the prefix (none for a negative length),
  decoded as UTF-8.
\<close>

lemma readVString_spec:
  "readVString bs =
     (if prefix_overruns bs then Inl RangeError
      else Inr (utf8_decode (take (nat (announced_length bs))
                  (drop (length (varint_prefix bs)) bs))))"
proof (cases "prefix_ends bs")
  case False
  then have "\<forall>b\<in>set bs. 0x80 \<le> b"
    by (auto simp add: prefix_ends_def not_less)
  then have tw: "takeWhile (\<lambda>b. 0x80 \<le> b) bs = bs"
    by (simp only: takeWhile_eq_all_conv)
  have "length (takeWhile (\<lambda>b. 0x80 \<le> b) bs) = length bs"
    by (subst tw) (rule refl)
  then show ?thesis
    using False by (simp add: readVString_def readVarint32_start prefix_overruns_def)
next
  case True
  then have "dropWhile (\<lambda>b. 0x80 \<le> b) bs \<noteq> []"
    by (simp add: prefix_ends_iff)
  then have "0 < length (dropWhile (\<lambda>b. 0x80 \<le> b) bs)"
    by simp
  then have l: "length (takeWhile (\<lambda>b. 0x80 \<le> b) bs) < length bs"
    using length_takeWhile_dropWhile [of "\<lambda>b. 0x80 \<le> b" bs] by linarith
  have p: "length (varint_prefix bs) = length (takeWhile (\<lambda>b. 0x80 \<le> b) bs) + 1"
    using True by (simp add: length_varint_prefix)
  have ne: "bs \<noteq> []"
    using l by auto
  show ?thesis
    using True l ne
    by (simp add: readVString_def readVarint32_start prefix_overruns_def p
        announced_length_def)
qed


text \<open>A framed text with a prefix of at most five bytes and a length below \<open>2 ^ 31\<close>
  does not overrun, and all the bytes after its prefix are read.\<close>

lemma readVString_framed:
  assumes "frames_text bs" and "length (varint_prefix bs) \<le> 5"
    and "varint_value (varint_prefix bs) < 2 ^ 31"
  shows "readVString bs = Inr (utf8_decode (drop (length (varint_prefix bs)) bs))"
proof -
  let ?v = "varint_value (varint_prefix bs)"
  have e: "prefix_ends bs" and l: "?v + length (varint_prefix bs) = length bs"
    using assms(1) by (simp_all add: frames_text_def)
  have "sint (word_of_nat ?v :: 32 word) = signed_take_bit 31 (int ?v)"
    by (simp add: signed_of_nat)
  also have "\<dots> = int ?v"
    using assms(3) by (intro signed_take_bit_int_eq_self) simp_all
  finally have a: "announced_length bs = int ?v"
    using assms(2) by (simp add: announced_length_def)
  have "\<not> prefix_overruns bs"
    using e l by (simp add: prefix_overruns_def a)
  moreover have "take ?v (drop (length (varint_prefix bs)) bs) = drop (length (varint_prefix bs)) bs"
    using l by simp
  ultimately show ?thesis
    by (simp add: readVString_spec a)
qed

section \<open>The nonce generator after its first call\<close>

lemma uniqueNonce_counter:
  assumes "unique_nonce_entropy w = Some e"
  shows "uniqueNonce w =
           (sint (push_bit 16 (Long_fromNumber (date_now w))
                    OR Long_fromNumber (Suc e mod 65535)),
            w\<lparr>unique_nonce_entropy := Some (Suc e)\<rparr>)"
  using assms by (simp add: uniqueNonce_def)

section \<open>The round trip of a memo\<close>

text \<open>
  What the two parties get back from \<open>decode\<close> for a memo that \<open>a\<close> encoded for the
  public key of \<open>b\<close>: the bytes \<open>encrypt\<close> really enciphered, unframed. The shared
  secret must be symmetric in the two key pairs, and the derived checksum must not be 0
  (C10).
\<close>

lemma round_trip_both:
  assumes "library_laws L" and "uniqueNonce w = (i, w')" and "startsWith_hash memo"
    and "inj (pub_toString L)"
    and "get_shared_secret L b (createPublic L a) = get_shared_secret L a (createPublic L b)"
    and "crypt_check L (word_of_int i) (get_shared_secret L a (createPublic L b)) \<noteq> Inr 0"
  shows "\<exists>s w1 w2 w3.
           encode L w (KeyObj a) (KeyObj (createPublic L b)) memo testNonce = (w1, Inr s) \<and>
           decode L w1 (KeyObj a) s =
             (w2, Inr (unframe (utf8_encode (toBinary (writeVString (drop 1 memo)))))) \<and>
           decode L w1 (KeyObj b) s =
             (w3, Inr (unframe (utf8_encode (toBinary (writeVString (drop 1 memo))))))"
proof -
  let ?B = "createPublic L b"
  let ?n = "word_of_int i :: 64 word"
  let ?S = "get_shared_secret L a ?B"
  let ?c = "of_nat (le_value (take 4 (sha256 L (crypt_encryption_key L ?n ?S)))) :: 32 word"
  let ?framed = "utf8_encode (toBinary (writeVString (drop 1 memo)))"
  let ?m = "\<lparr>memo_check = ?c,
             memo_encrypted = aes_encrypt L (crypt_tag L ?n ?S) (crypt_iv L ?n ?S) ?framed,
             memo_from = createPublic L a, memo_nonce = ?n, memo_to = ?B\<rparr>"
  let ?s = "0x23 # bs58_encode L (EncryptedMemo L ?m)"
  let ?w1 = "w'\<lparr>cipher_log := cipher_log w' @ [Cipheriv (crypt_tag L ?n ?S) (crypt_iv L ?n ?S)]\<rparr>"
  let ?w2 = "?w1\<lparr>cipher_log := cipher_log ?w1 @ [Decipheriv (crypt_tag L ?n ?S) (crypt_iv L ?n ?S)]\<rparr>"
  have dl: "digest_lengths L"
    using assms(1) by (simp add: library_laws_def)
  have aes: "aes_decrypt L key iv (aes_encrypt L key iv x) = Some x" for key iv x
    using assms(1) by (simp add: library_laws_def)
  have b58: "bs58_decode L (bs58_encode L bs) = Some bs" for bs
    using assms(1) by (simp add: library_laws_def)
  have ser: "EncryptedMemoD L (EncryptedMemo L m) = Some m" for m
    using assms(1) by (simp add: library_laws_def)
  have enc: "encode L w (KeyObj a) (KeyObj ?B) memo testNonce = (?w1, Inr ?s)"
    by (rule encode_typed [OF dl assms(2,3)])
  have chk: "crypt_check L ?n ?S = Inr ?c"
    using dl by (simp add: crypt_check_le digest_lengths_def)
  then have nz: "?c \<noteq> 0"
    using assms(6) by simp
  have opened: "crypt_with L ?w1 ?S ?n (MBuffer (memo_encrypted ?m)) (Some (memo_check ?m)) =
      (?w2, Inr \<lparr>out_nonce = ?n, out_message = ?framed, out_checksum = ?c\<rparr>)"
    by (simp add: crypt_with_match [OF chk nz] cryptoJsDecrypt_buffer
        key_material_lengths [OF dl] aes)
  have parsed: "bs58_decode L (drop 1 ?s) = Some (EncryptedMemo L ?m)"
    by (simp add: b58)
  have marked: "startsWith_hash ?s"
    by (simp add: startsWith_hash_def)
  have key: "toPrivateObj L (KeyObj k) = Inr (Some k)" for k
    by (simp add: toPrivateObj_def)
  have opened': "decrypt L ?w1 (Some k) (Some pk) (NLong ?n) (MBuffer (memo_encrypted ?m))
        (Some (memo_check ?m)) = (?w2, Inr ?framed)"
    if "get_shared_secret L k pk = ?S" for k pk
    using opened that by (simp add: decrypt_typed)
  have sender: "decode L ?w1 (KeyObj a) ?s = (?w2, Inr (unframe ?framed))"
    using opened' [of a ?B]
    by (subst decode_typed [OF marked key parsed ser]) simp
  have other: "(if pub_toString L ?B = pub_toString L (createPublic L a) then ?B
         else createPublic L a) = createPublic L a"
    using assms(4) by (simp add: inj_eq)
  have recipient: "decode L ?w1 (KeyObj b) ?s = (?w2, Inr (unframe ?framed))"
    using opened' [of b "createPublic L a"] assms(5)
    by (subst decode_typed [OF marked key parsed ser]) (simp add: other cong: if_cong)
  show ?thesis
    using enc sender recipient by blast
qed

text \<open>
  The round trip holds for a marked memo of fewer than 128 ASCII characters after the
  marker.
\<close>

lemma round_trip_short_ascii:
  assumes "library_laws L" and "uniqueNonce w = (i, w')"
    and "inj (pub_toString L)"
    and "get_shared_secret L b (createPublic L a) = get_shared_secret L a (createPublic L b)"
    and "crypt_check L (word_of_int i) (get_shared_secret L a (createPublic L b)) \<noteq> Inr 0"
    and "\<forall>u\<in>set t. u < 0x80" and "length t < 128"
  shows "\<exists>s w1 w2 w3.
           encode L w (KeyObj a) (KeyObj (createPublic L b)) (0x23 # t) testNonce = (w1, Inr s) \<and>
           decode L w1 (KeyObj a) s = (w2, Inr (0x23 # t)) \<and>
           decode L w1 (KeyObj b) s = (w3, Inr (0x23 # t))"
proof -
  have "startsWith_hash (0x23 # t)"
    by (simp add: startsWith_hash_def)
  from round_trip_both [OF assms(1,2) this assms(3,4,5), of testNonce]
  show ?thesis
    by (simp add: unframe_framed_ascii [OF assms(6,7)])
qed

lemma unframe_e_acute:
  "unframe (utf8_encode (toBinary (writeVString [0xE9]))) = [0x23, 0xC3]"
proof -
  have "utf8_encode [0xE9] = [0xC3, 0xA9]"
    by (simp add: utf8_encode_def unit_code_point_def is_high_surrogate_def
        is_low_surrogate_def utf8_of_cp_def)
  then have "writeVString [0xE9] = [2, 0xC3, 0xA9]"
    by (simp add: writeVString_def writeVarint32_small)
  then have "utf8_encode (toBinary (writeVString [0xE9])) = [2, 0xC3, 0x83, 0xC2, 0xA9]"
    by (simp add: toBinary_def utf8_encode_def unit_code_point_def is_high_surrogate_def
        is_low_surrogate_def utf8_of_cp_def)
  moreover have "readVString [2, 0xC3, 0x83, 0xC2, 0xA9] = Inr [0xC3]"
    by (simp add: readVString_def utf8_decode_def utf8_init_def utf8_step_def utf8_lead_def
        utf16_of_cp_def)
  ultimately show ?thesis
    by (simp add: unframe_def fromBinary_toBinary)
qed

section \<open>Runs of the small library\<close>

lemma demo_digest_lengths: "digest_lengths demo_library"
  by (simp add: digest_lengths_def demo_library_def)

lemma demo_pub_toString_inj: "inj (pub_toString demo_library)"
proof (rule injI)
  fix x y :: byte
  assume "pub_toString demo_library x = pub_toString demo_library y"
  then have "(ucast x :: 16 word) = ucast y"
    by (simp add: demo_library_def)
  then have "(ucast (ucast x :: 16 word) :: byte) = ucast (ucast y :: 16 word)"
    by simp
  then show "x = y"
    by (simp add: ucast_byte_unit)
qed

lemma demo_memo_round_trip: "demo_memo_parse (demo_memo_bytes m) = Some m"
  by (simp add: demo_memo_parse_def demo_memo_bytes_def length_writeUint64 length_writeInt32
      le_value_writeUint64 le_value_writeInt32)

lemma demo_library_laws: "library_laws demo_library"
proof -
  have "map ((\<lambda>b. b - 1) \<circ> (\<lambda>b. b + 1)) m = m" for m :: bytes
    by (simp add: comp_def)
  moreover have "map ((ucast :: 16 word \<Rightarrow> byte) \<circ> ucast) bs = bs" for bs
    by (simp add: comp_def ucast_byte_unit)
  ultimately show ?thesis
    using demo_digest_lengths
    by (simp add: library_laws_def) (simp add: demo_library_def demo_memo_round_trip)
qed

lemma uniqueNonce_demo_world:
  "uniqueNonce demo_world = (111411200000000008, demo_world\<lparr>unique_nonce_entropy := Some 8\<rparr>)"
  by (simp add: uniqueNonce_def demo_world_def Long_fromNumber_def)

lemma demo_secrets:
  "get_shared_secret demo_library 5 21 = [59]"
  "get_shared_secret demo_library 7 15 = [59]"
  "createPublic demo_library 5 = 15"
  "createPublic demo_library 7 = 21"
  by (simp_all add: demo_library_def)

lemma demo_key_material_77:
  "crypt_tag demo_library 77 (get_shared_secret demo_library 5 21) = replicate 32 137"
  "crypt_iv demo_library 77 (get_shared_secret demo_library 5 21) = replicate 16 137"
  "crypt_check demo_library 77 (get_shared_secret demo_library 5 21) = Inr 66115"
  by (simp_all add: crypt_tag_def crypt_iv_def crypt_check_def crypt_encryption_key_def
      crypt_ebuf_def fromBinary_toBinary writeUint64_def writeInt32_def slice_def
      demo_library_def sum_list_replicate)

lemma demo_key_material_59:
  "crypt_tag demo_library 77 [59] = replicate 32 137"
  "crypt_iv demo_library 77 [59] = replicate 16 137"
  "crypt_check demo_library 77 [59] = Inr 66115"
  using demo_key_material_77 by (simp_all add: demo_secrets)

lemma demo_key_material_8:
  "crypt_tag demo_library 111411200000000008 (get_shared_secret demo_library 5 21)
     = replicate 32 236"
  "crypt_iv demo_library 111411200000000008 (get_shared_secret demo_library 5 21)
     = replicate 16 236"
  "crypt_encryption_key demo_library 111411200000000008 (get_shared_secret demo_library 5 21)
     = replicate 64 236"
  by (simp_all add: crypt_tag_def crypt_iv_def crypt_encryption_key_def
      crypt_ebuf_def fromBinary_toBinary writeUint64_def writeInt32_def slice_def
      demo_library_def)

lemma demo_derive_spec_77:
  "derive_spec (sha512 demo_library) (sha256 demo_library) 77
     (get_shared_secret demo_library 5 21) = (replicate 32 137, replicate 16 137, 66115)"
  using key_material_spec [OF demo_digest_lengths, of 77 "get_shared_secret demo_library 5 21"]
  by (cases "derive_spec (sha512 demo_library) (sha256 demo_library) 77
       (get_shared_secret demo_library 5 21)") (simp add: demo_key_material_77)

lemma framed_hello:
  "utf8_encode (toBinary (writeVString [0x68, 0x65, 0x6C, 0x6C, 0x6F])) =
     [5, 0x68, 0x65, 0x6C, 0x6C, 0x6F]"
  by (simp add: writeVString_def utf8_encode_def unit_code_point_def is_high_surrogate_def
      is_low_surrogate_def utf8_of_cp_def toBinary_def writeVarint32_small)

text \<open>
  A memo for the small library: from 15 (the public key of 5) to 21 (the public key of
  7), nonce 77, the checksum 66115 of that nonce and their shared secret, and the
  unframed bytes of \<open>hi\<close> as ciphertext.
\<close>

lemma demo_memo_parses:
  "bs58_decode demo_library
     (drop 1 [0x23, 15, 21, 77, 0, 0, 0, 0, 0, 0, 0, 67, 2, 1, 0, 105, 106, 16]) =
       Some [15, 21, 77, 0, 0, 0, 0, 0, 0, 0, 67, 2, 1, 0, 105, 106, 16]"
  "EncryptedMemoD demo_library [15, 21, 77, 0, 0, 0, 0, 0, 0, 0, 67, 2, 1, 0, 105, 106, 16] =
     Some \<lparr>memo_check = 66115, memo_encrypted = [105, 106, 16], memo_from = 15,
           memo_nonce = 77, memo_to = 21\<rparr>"
  by (simp_all add: demo_library_def demo_memo_parse_def le_value_def)

lemma demo_decrypt_hi:
  "crypt_with demo_library demo_world [59] 77 (MBuffer [105, 106, 16]) (Some 66115) =
     (demo_world\<lparr>cipher_log := [Decipheriv (replicate 32 137) (replicate 16 137)]\<rparr>,
      Inr \<lparr>out_nonce = 77, out_message = [0x68, 0x69], out_checksum = 66115\<rparr>)"
  by (simp add: crypt_with_match [OF demo_key_material_59(3)] demo_key_material_59
      cryptoJsDecrypt_buffer)
     (simp add: demo_library_def demo_world_def)

lemma readVString_hi: "readVString [0x68, 0x69] = Inl RangeError"
  by (simp add: readVString_def)

lemma unframe_hi: "unframe [0x68, 0x69] = [0x23, 0x68, 0x69]"
  by (simp add: unframe_def fromBinary_toBinary readVString_hi utf8_decode_def utf8_init_def
      utf8_step_def utf8_lead_def utf16_of_cp_def)



section \<open>C1: a supplied nonce\<close>

text \<open>
  C1 fails: \<open>encrypt\<close> never reads its \<open>nonce\<close> parameter, although its comment
  documents \<open>[nonce = uniqueNonce()]\<close> and \<open>encode\<close> passes \<open>testNonce\<close> on. Called with
  the nonce 12345 when the entropy counter is 7 and the clock at 1700000000000 ms, it
  consults the generator (the counter becomes 8) and returns the generated nonce
  \<open>1700000000000 * 65536 + 8\<close>, with key, IV and checksum derived from that nonce.
\<close>

theorem encrypt_ignores_supplied_nonce:
  assumes "digest_lengths L"
  shows "encrypt L demo_world (Some priv) (Some pub) msg (Some 12345) =
           (demo_world\<lparr>unique_nonce_entropy := Some 8,
              cipher_log :=
                [Cipheriv (crypt_tag L 111411200000000008 (get_shared_secret L priv pub))
                          (crypt_iv L 111411200000000008 (get_shared_secret L priv pub))]\<rparr>,
            Inr \<lparr>out_nonce = 111411200000000008,
                 out_message =
                   aes_encrypt L (crypt_tag L 111411200000000008 (get_shared_secret L priv pub))
                     (crypt_iv L 111411200000000008 (get_shared_secret L priv pub))
                     (utf8_encode (toBinary (writeVString msg))),
                 out_checksum =
                   of_nat (le_value (take 4 (sha256 L
                     (crypt_encryption_key L 111411200000000008
                        (get_shared_secret L priv pub)))))\<rparr>)"
  by (simp add: encrypt_typed [OF assms uniqueNonce_demo_world]) (simp add: demo_world_def)

theorem encrypt_ignores_supplied_nonce_witness:
  "digest_lengths demo_library \<and>
   encrypt demo_library demo_world (Some 5) (Some 21) [0x68, 0x65, 0x6C, 0x6C, 0x6F] (Some 12345) =
     (demo_world\<lparr>unique_nonce_entropy := Some 8,
        cipher_log := [Cipheriv (replicate 32 236) (replicate 16 236)]\<rparr>,
      Inr \<lparr>out_nonce = 111411200000000008,
           out_message = [6, 0x69, 0x66, 0x6D, 0x6D, 0x70, 16],
           out_checksum = 66051\<rparr>)"
  using encrypt_ignores_supplied_nonce [OF demo_digest_lengths, of 5 21
      "[0x68, 0x65, 0x6C, 0x6C, 0x6F]"]
  by (simp add: demo_key_material_8 framed_hello demo_digest_lengths)
     (simp add: demo_library_def le_value_def sum_list_replicate)

section \<open>C2: the round trip\<close>

text \<open>
  C2 fails for a memo with a character outside ASCII. \<open>encrypt\<close> turns the framed
  bytes into a binary string and calls \<open>Buffer.from\<close> on it without the \<open>'binary'\<close>
  encoding that line 58 of the same file passes: the string is encoded as UTF-8, and
  every byte from \<open>0x80\<close> on becomes two. For the plaintext \<open>#\<close> followed by U+00E9
  the enciphered bytes are \<open>02 C3 83 C2 A9\<close> instead of \<open>02 C3 A9\<close>, and with
  collaborators that obey their laws (a symmetric shared secret among them) the sender's
  and the recipient's \<open>decode\<close> both return \<open>#\<close> followed by U+00C3.
\<close>

theorem round_trip_loses_non_ascii:
  assumes "library_laws L"
    and "inj (pub_toString L)"
    and "get_shared_secret L b (createPublic L a) = get_shared_secret L a (createPublic L b)"
    and "crypt_check L (word_of_int (fst (uniqueNonce w)))
           (get_shared_secret L a (createPublic L b)) \<noteq> Inr 0"
  shows "\<exists>s w1 w2 w3.
           encode L w (KeyObj a) (KeyObj (createPublic L b)) [0x23, 0xE9] testNonce
             = (w1, Inr s) \<and>
           decode L w1 (KeyObj a) s = (w2, Inr [0x23, 0xC3]) \<and>
           decode L w1 (KeyObj b) s = (w3, Inr [0x23, 0xC3])"
proof -
  obtain i w' where u: "uniqueNonce w = (i, w')"
    by (cases "uniqueNonce w")
  have m: "startsWith_hash [0x23, 0xE9]"
    by (simp add: startsWith_hash_def)
  have "crypt_check L (word_of_int i) (get_shared_secret L a (createPublic L b)) \<noteq> Inr 0"
    using assms(4) u by simp
  from round_trip_both [OF assms(1) u m assms(2,3) this, of testNonce]
  show ?thesis
    by (simp add: unframe_e_acute)
qed

theorem round_trip_loses_non_ascii_witness:
  "library_laws demo_library \<and>
   inj (pub_toString demo_library) \<and>
   get_shared_secret demo_library 7 (createPublic demo_library 5)
     = get_shared_secret demo_library 5 (createPublic demo_library 7) \<and>
   crypt_check demo_library (word_of_int (fst (uniqueNonce demo_world)))
     (get_shared_secret demo_library 5 (createPublic demo_library 7)) = Inr 66051 \<and>
   (Inr 66051 :: error + 32 word) \<noteq> Inr 0 \<and>
   (\<exists>s w1 w2 w3.
      encode demo_library demo_world (KeyObj 5) (KeyObj (createPublic demo_library 7))
        [0x23, 0xE9] None = (w1, Inr s) \<and>
      decode demo_library w1 (KeyObj 5) s = (w2, Inr [0x23, 0xC3]) \<and>
      decode demo_library w1 (KeyObj 7) s = (w3, Inr [0x23, 0xC3]))"
proof -
  have sym: "get_shared_secret demo_library 7 (createPublic demo_library 5)
     = get_shared_secret demo_library 5 (createPublic demo_library 7)"
    by (simp add: demo_library_def)
  have c: "crypt_check demo_library (word_of_int (fst (uniqueNonce demo_world)))
     (get_shared_secret demo_library 5 (createPublic demo_library 7)) = Inr 66051"
    using crypt_check_le [of demo_library 111411200000000008 "get_shared_secret demo_library 5 21"]
      demo_digest_lengths
    by (simp add: uniqueNonce_demo_world digest_lengths_def demo_key_material_8
        demo_secrets(4))
       (simp add: demo_library_def le_value_def sum_list_replicate)
  then have "crypt_check demo_library (word_of_int (fst (uniqueNonce demo_world)))
     (get_shared_secret demo_library 5 (createPublic demo_library 7)) \<noteq> Inr 0"
    by simp
  from round_trip_loses_non_ascii [OF demo_library_laws demo_pub_toString_inj sym this, of None]
    c sym demo_library_laws demo_pub_toString_inj
  show ?thesis
    by simp
qed

section \<open>C3: a checksum that does not match\<close>

text \<open>
  C3 fails where the expected checksum is 0: \<open>if (checksum)\<close> takes 0 for "no
  checksum", although the comment on \<open>crypt\<close> says "null to encrypt, non-null to
  decrypt". With a derived checksum \<open>c \<noteq> 0\<close> and the expected checksum 0 the two
  differ, yet \<open>decrypt\<close> raises no "Invalid nonce": it creates a cipher and returns the
  encryption of the ciphertext.
\<close>

theorem zero_checksum_mismatch_not_rejected:
  assumes "digest_lengths L"
    and "crypt_check L n (get_shared_secret L priv pub) = Inr c"
    and "c \<noteq> 0"
  shows "decrypt L w (Some priv) (Some pub) (NLong n) (MBuffer m) (Some 0) =
           (w\<lparr>cipher_log := cipher_log w @
                [Cipheriv (crypt_tag L n (get_shared_secret L priv pub))
                          (crypt_iv L n (get_shared_secret L priv pub))]\<rparr>,
            Inr (aes_encrypt L (crypt_tag L n (get_shared_secret L priv pub))
                   (crypt_iv L n (get_shared_secret L priv pub)) m))"
  using assms(2)
  by (simp add: decrypt_typed crypt_with_falsy_checksum cryptoJsEncrypt_buffer
      key_material_lengths [OF assms(1)])

theorem zero_checksum_mismatch_not_rejected_witness:
  "digest_lengths demo_library \<and>
   crypt_check demo_library 77 (get_shared_secret demo_library 5 21) = Inr 66115 \<and>
   (66115 :: 32 word) \<noteq> 0 \<and>
   decrypt demo_library demo_world (Some 5) (Some 21) (NLong 77) (MBuffer [1, 2]) (Some 0) =
     (demo_world\<lparr>cipher_log := [Cipheriv (replicate 32 137) (replicate 16 137)]\<rparr>,
      Inr [2, 3, 16])"
proof -
  have c: "crypt_check demo_library 77 (get_shared_secret demo_library 5 21) = Inr 66115"
    by (rule demo_key_material_77)
  have "decrypt demo_library demo_world (Some 5) (Some 21) (NLong 77) (MBuffer [1, 2]) (Some 0) =
     (demo_world\<lparr>cipher_log := [Cipheriv (replicate 32 137) (replicate 16 137)]\<rparr>,
      Inr [2, 3, 16])"
    using zero_checksum_mismatch_not_rejected [OF demo_digest_lengths c, of demo_world "[1, 2]"]
    by (simp add: demo_key_material_77) (simp add: demo_library_def demo_world_def)
  then show ?thesis
    using demo_digest_lengths c by simp
qed

section \<open>C4: the key schedule\<close>

text \<open>
  C4. For every nonce and shared secret, \<open>crypt\<close> derives what the specification's key
  schedule (\<open>derive_spec\<close>) derives: SHA-512 over the 8 little-endian bytes of the nonce
  followed by the shared secret; bytes 0 to 31 of the digest are the AES-256 key and
  bytes 32 to 47 the IV, the ones the cipher or decipher is created with; the checksum
  is the first four bytes of the SHA-256 of the whole digest read as a little-endian
  unsigned 32-bit integer, the one returned and the one compared.
\<close>

theorem key_schedule_as_specified:
  assumes "digest_lengths L"
  shows "case derive_spec (sha512 L) (sha256 L) n (get_shared_secret L priv pub) of
           (key, iv, chk) \<Rightarrow>
             crypt_tag L n (get_shared_secret L priv pub) = key \<and>
             crypt_iv L n (get_shared_secret L priv pub) = iv \<and>
             crypt_check L n (get_shared_secret L priv pub) = Inr chk \<and>
             length key = 32 \<and> length iv = 16 \<and>
             crypt L w (Some priv) (Some pub) (NLong n) (MBuffer m) None =
               (w\<lparr>cipher_log := cipher_log w @ [Cipheriv key iv]\<rparr>,
                Inr \<lparr>out_nonce = n, out_message = aes_encrypt L key iv m,
                     out_checksum = chk\<rparr>) \<and>
             (chk \<noteq> 0 \<longrightarrow>
                crypt L w (Some priv) (Some pub) (NLong n) (MBuffer m) (Some chk) =
                  (case aes_decrypt L key iv m of
                     None \<Rightarrow>
                       (w\<lparr>cipher_log := cipher_log w @ [Decipheriv key iv]\<rparr>,
                        Inl DecipherFinalError)
                   | Some p \<Rightarrow>
                       (w\<lparr>cipher_log := cipher_log w @ [Decipheriv key iv]\<rparr>,
                        Inr \<lparr>out_nonce = n, out_message = p, out_checksum = chk\<rparr>)))"
proof -
  obtain key iv chk
    where d: "derive_spec (sha512 L) (sha256 L) n (get_shared_secret L priv pub) = (key, iv, chk)"
    by (cases "derive_spec (sha512 L) (sha256 L) n (get_shared_secret L priv pub)")
  have k: "crypt_tag L n (get_shared_secret L priv pub) = key"
    and i: "crypt_iv L n (get_shared_secret L priv pub) = iv"
    and c: "crypt_check L n (get_shared_secret L priv pub) = Inr chk"
    using key_material_spec [OF assms, of n "get_shared_secret L priv pub"] d by simp_all
  have lk: "length key = 32" and li: "length iv = 16"
    using key_material_lengths [OF assms, of n "get_shared_secret L priv pub"] k i by simp_all
  have e: "crypt L w (Some priv) (Some pub) (NLong n) (MBuffer m) None =
             (w\<lparr>cipher_log := cipher_log w @ [Cipheriv key iv]\<rparr>,
              Inr \<lparr>out_nonce = n, out_message = aes_encrypt L key iv m, out_checksum = chk\<rparr>)"
    by (simp add: crypt_typed crypt_with_falsy_checksum [OF c] k i
        cryptoJsEncrypt_buffer [OF lk li])
  have "crypt L w (Some priv) (Some pub) (NLong n) (MBuffer m) (Some chk) =
          (case aes_decrypt L key iv m of
             None \<Rightarrow>
               (w\<lparr>cipher_log := cipher_log w @ [Decipheriv key iv]\<rparr>, Inl DecipherFinalError)
           | Some p \<Rightarrow>
               (w\<lparr>cipher_log := cipher_log w @ [Decipheriv key iv]\<rparr>,
                Inr \<lparr>out_nonce = n, out_message = p, out_checksum = chk\<rparr>))"
    if "chk \<noteq> 0"
    by (simp add: crypt_typed crypt_with_match [OF c that] k i
        cryptoJsDecrypt_buffer [OF lk li] split: option.split)
  then show ?thesis
    using k i c lk li e by (simp add: d)
qed

theorem key_schedule_as_specified_witness:
  "digest_lengths demo_library \<and>
   derive_spec (sha512 demo_library) (sha256 demo_library) 77
     (get_shared_secret demo_library 5 21) = (replicate 32 137, replicate 16 137, 66115) \<and>
   crypt demo_library demo_world (Some 5) (Some 21) (NLong 77) (MBuffer [1, 2]) None =
     (demo_world\<lparr>cipher_log := [Cipheriv (replicate 32 137) (replicate 16 137)]\<rparr>,
      Inr \<lparr>out_nonce = 77, out_message = [2, 3, 16], out_checksum = 66115\<rparr>) \<and>
   (66115 :: 32 word) \<noteq> 0 \<and>
   crypt demo_library demo_world (Some 5) (Some 21) (NLong 77) (MBuffer [2, 3, 16]) (Some 66115) =
     (demo_world\<lparr>cipher_log := [Decipheriv (replicate 32 137) (replicate 16 137)]\<rparr>,
      Inr \<lparr>out_nonce = 77, out_message = [1, 2], out_checksum = 66115\<rparr>)"
proof -
  have a: "crypt demo_library demo_world (Some 5) (Some 21) (NLong 77) (MBuffer [1, 2]) None =
     (demo_world\<lparr>cipher_log := [Cipheriv (replicate 32 137) (replicate 16 137)]\<rparr>,
      Inr \<lparr>out_nonce = 77, out_message = [2, 3, 16], out_checksum = 66115\<rparr>)"
    using key_schedule_as_specified [OF demo_digest_lengths, of 77 5 21 demo_world "[1, 2]"]
    by (simp add: demo_derive_spec_77) (simp add: demo_library_def demo_world_def)
  have b: "crypt demo_library demo_world (Some 5) (Some 21) (NLong 77) (MBuffer [2, 3, 16])
      (Some 66115) =
     (demo_world\<lparr>cipher_log := [Decipheriv (replicate 32 137) (replicate 16 137)]\<rparr>,
      Inr \<lparr>out_nonce = 77, out_message = [1, 2], out_checksum = 66115\<rparr>)"
    using key_schedule_as_specified [OF demo_digest_lengths, of 77 5 21 demo_world "[2, 3, 16]"]
    by (simp add: demo_derive_spec_77) (simp add: demo_library_def demo_world_def)
  show ?thesis
    using a b demo_digest_lengths demo_derive_spec_77 by simp
qed

section \<open>C5: marker pass-through\<close>

text \<open>
  C5. For every string \<open>S\<close> that does not start with \<open>'#'\<close>, and for any keys and
  optional nonce, \<open>encode\<close> and \<open>decode\<close> both return \<open>S\<close> unchanged, and leave the
  process state as it was.
\<close>

theorem marker_pass_through:
  "\<not> startsWith_hash S \<Longrightarrow>
     encode L w private_key public_key S testNonce = (w, Inr S) \<and>
     decode L w private_key' S = (w, Inr S)"
  by (simp add: encode_def decode_def)

theorem marker_pass_through_witness:
  "\<not> startsWith_hash [0x68, 0x69] \<and>
   encode demo_library demo_world (KeyString [0x35]) KeyAbsent [0x68, 0x69] (Some 12345)
     = (demo_world, Inr [0x68, 0x69]) \<and>
   decode demo_library demo_world (KeyObj 5) [0x68, 0x69] = (demo_world, Inr [0x68, 0x69])"
  using marker_pass_through [of "[0x68, 0x69]" demo_library demo_world "KeyString [0x35]"
      KeyAbsent "Some 12345" "KeyObj 5"]
  by (simp add: startsWith_hash_def)

section \<open>C6: the counterparty\<close>

text \<open>
  C6. For every marked memo string that parses to an envelope, \<open>decode\<close> compares the
  caller's own public key with the envelope's \<open>from\<close>: if they are equal the
  counterparty is the envelope's \<open>to\<close>, otherwise it is \<open>from\<close>; the shared secret the
  key material is derived from is that of the caller's private key and the counterparty.
  (The code compares the string forms of the keys, which name their keys uniquely.)
\<close>

theorem decode_resolves_counterparty:
  assumes "startsWith_hash memo"
    and "toPrivateObj L private_key = Inr (Some sk)"
    and "bs58_decode L (drop 1 memo) = Some raw"
    and "EncryptedMemoD L raw = Some m"
    and "inj (pub_toString L)"
  shows "decode L w private_key memo =
           (case crypt_with L w
                   (get_shared_secret L sk
                      (if createPublic L sk = memo_from m then memo_to m else memo_from m))
                   (memo_nonce m) (MBuffer (memo_encrypted m)) (Some (memo_check m)) of
              (w', Inl e) \<Rightarrow> (w', Inl e)
            | (w', Inr r) \<Rightarrow> (w', Inr (unframe (out_message r))))"
proof -
  have "(pub_toString L (createPublic L sk) = pub_toString L (memo_from m))
          = (createPublic L sk = memo_from m)"
    using assms(5) by (simp add: inj_eq)
  then show ?thesis
    by (simp add: decode_typed [OF assms(1-4)] decrypt_typed split: prod.split sum.split)
qed

theorem decode_resolves_counterparty_witness:
  "startsWith_hash [0x23, 15, 21, 77, 0, 0, 0, 0, 0, 0, 0, 67, 2, 1, 0, 105, 106, 16] \<and>
   toPrivateObj demo_library (KeyObj 5) = Inr (Some 5) \<and>
   toPrivateObj demo_library (KeyString [7]) = Inr (Some 7) \<and>
   inj (pub_toString demo_library) \<and>
   decode demo_library demo_world (KeyObj 5)
       [0x23, 15, 21, 77, 0, 0, 0, 0, 0, 0, 0, 67, 2, 1, 0, 105, 106, 16] =
     (demo_world\<lparr>cipher_log := [Decipheriv (replicate 32 137) (replicate 16 137)]\<rparr>,
      Inr [0x23, 0x68, 0x69]) \<and>
   decode demo_library demo_world (KeyString [7])
       [0x23, 15, 21, 77, 0, 0, 0, 0, 0, 0, 0, 67, 2, 1, 0, 105, 106, 16] =
     (demo_world\<lparr>cipher_log := [Decipheriv (replicate 32 137) (replicate 16 137)]\<rparr>,
      Inr [0x23, 0x68, 0x69])"
proof -
  have s: "startsWith_hash [0x23, 15, 21, 77, 0, 0, 0, 0, 0, 0, 0, 67, 2, 1, 0, 105, 106, 16]"
    by (simp add: startsWith_hash_def)
  have k5: "toPrivateObj demo_library (KeyObj 5) = Inr (Some 5)"
    by (simp add: toPrivateObj_def)
  have k7: "toPrivateObj demo_library (KeyString [7]) = Inr (Some 7)"
    by (simp add: toPrivateObj_def demo_library_def)
  have sender: "decode demo_library demo_world (KeyObj 5)
       [0x23, 15, 21, 77, 0, 0, 0, 0, 0, 0, 0, 67, 2, 1, 0, 105, 106, 16] =
     (demo_world\<lparr>cipher_log := [Decipheriv (replicate 32 137) (replicate 16 137)]\<rparr>,
      Inr [0x23, 0x68, 0x69])"
    using decode_resolves_counterparty [OF s k5 demo_memo_parses demo_pub_toString_inj,
        of demo_world]
    by (simp add: demo_secrets demo_decrypt_hi unframe_hi)
  have recipient: "decode demo_library demo_world (KeyString [7])
       [0x23, 15, 21, 77, 0, 0, 0, 0, 0, 0, 0, 67, 2, 1, 0, 105, 106, 16] =
     (demo_world\<lparr>cipher_log := [Decipheriv (replicate 32 137) (replicate 16 137)]\<rparr>,
      Inr [0x23, 0x68, 0x69])"
    using decode_resolves_counterparty [OF s k7 demo_memo_parses demo_pub_toString_inj,
        of demo_world]
    by (simp add: demo_secrets demo_decrypt_hi unframe_hi)
  show ?thesis
    using s k5 k7 demo_pub_toString_inj sender recipient by simp
qed

section \<open>C7: text without a length prefix\<close>




section \<open>C8: the nonce generator\<close>

text \<open>
  C8 fails at the wrap: the code reduces the incremented counter with \<open>% 0xFFFF\<close>, that
  is modulo 65535, where a 16-bit counter wraps modulo 65536 (\<open>0x10000\<close>); the module
  variable itself is never reduced. In a fresh process whose two random draws give the
  bytes \<open>0xFF\<close> and \<open>0xFE\<close> the counter starts at 65534: the first call should return
  \<open>(timestamp_ms << 16) | 65535\<close> and returns \<open>(timestamp_ms << 16) | 0\<close>, with
  \<open>timestamp_ms = 1700000000000\<close>; the next call finds the counter at 65535 and leaves
  it at 65536.
\<close>

theorem uniqueNonce_reduces_modulo_65535:
  "uniqueNonce (demo_world\<lparr>unique_nonce_entropy := None\<rparr>) =
     (1700000000000 * 65536 + 0, demo_world\<lparr>unique_nonce_entropy := Some 65535\<rparr>) \<and>
   uniqueNonce (demo_world\<lparr>unique_nonce_entropy := Some 65535\<rparr>) =
     (1700000000000 * 65536 + 1, demo_world\<lparr>unique_nonce_entropy := Some 65536\<rparr>)"
  by (simp add: uniqueNonce_def demo_world_def Long_fromNumber_def)

section \<open>C9: the guard of the cipher primitives\<close>

text \<open>
  C9 as stated fails for an empty \<open>Buffer\<close>: a \<open>Buffer\<close> is truthy, so the assertion
  passes, \<open>cryptoJsEncrypt\<close> creates a cipher and returns its output, and
  \<open>cryptoJsDecrypt\<close> creates a decipher and fails only in \<open>final()\<close>.
\<close>

theorem empty_buffer_passes_guard:
  "cryptoJsEncrypt demo_library demo_world (MBuffer []) (replicate 32 0) (replicate 16 0) =
     (demo_world\<lparr>cipher_log := [Cipheriv (replicate 32 0) (replicate 16 0)]\<rparr>, Inr [16]) \<and>
   cryptoJsDecrypt demo_library demo_world (MBuffer []) (replicate 32 0) (replicate 16 0) =
     (demo_world\<lparr>cipher_log := [Decipheriv (replicate 32 0) (replicate 16 0)]\<rparr>,
      Inl DecipherFinalError)"
  by (simp add: cryptoJsEncrypt_def cryptoJsDecrypt_def createCipheriv_def
      createDecipheriv_def demo_library_def demo_world_def)

text \<open>
  C9, amended. For every call of \<open>cryptoJsEncrypt\<close> or \<open>cryptoJsDecrypt\<close> whose input
  is falsy (the empty string, \<open>null\<close> or \<open>undefined\<close>), the call fails with the
  assertion's error ("Missing plain text", "Missing cipher text") and the process state,
  the cipher log included, is unchanged: no cipher was created.
\<close>

theorem falsy_input_fails_before_cipher:
  "msg = MString [] \<or> msg = MAbsent \<Longrightarrow>
     cryptoJsEncrypt L w msg tag iv = (w, Inl MissingPlainText) \<and>
     cryptoJsDecrypt L w msg tag iv = (w, Inl MissingCipherText)"
  by (auto simp add: cryptoJsEncrypt_def cryptoJsDecrypt_def)

theorem falsy_input_fails_before_cipher_witness:
  "cryptoJsEncrypt demo_library demo_world (MString []) (replicate 32 0) (replicate 16 0)
     = (demo_world, Inl MissingPlainText) \<and>
   cryptoJsDecrypt demo_library demo_world (MString []) (replicate 32 0) (replicate 16 0)
     = (demo_world, Inl MissingCipherText) \<and>
   cipher_log demo_world = []"
  using falsy_input_fails_before_cipher [of "MString []" demo_library demo_world
      "replicate 32 0" "replicate 16 0"]
  by (simp add: demo_world_def)

section \<open>C10: the expected checksum 0\<close>

text \<open>
  C10. For every \<open>decrypt\<close> call with arguments of the declared and documented types
  (key objects, the nonce a \<open>Long\<close> or a decimal string, the ciphertext a \<open>Buffer\<close>)
  whose expected checksum is 0, no checksum is compared, whatever the derived checksum
  is: the encryption branch is taken, a cipher is created with the derived key and IV,
  and the AES-256-CBC encryption of the supplied ciphertext is returned as the
  plaintext, with no error raised.
\<close>

theorem zero_checksum_encrypts_ciphertext:
  assumes "digest_lengths L"
  shows "decrypt L w (Some priv) (Some pub) (NLong n) (MBuffer m) (Some 0) =
           (w\<lparr>cipher_log := cipher_log w @
                [Cipheriv (crypt_tag L n (get_shared_secret L priv pub))
                          (crypt_iv L n (get_shared_secret L priv pub))]\<rparr>,
            Inr (aes_encrypt L (crypt_tag L n (get_shared_secret L priv pub))
                   (crypt_iv L n (get_shared_secret L priv pub)) m)) \<and>
         decrypt L w (Some priv) (Some pub) (NString i) (MBuffer m) (Some 0) =
           (w\<lparr>cipher_log := cipher_log w @
                [Cipheriv (crypt_tag L (word_of_int i) (get_shared_secret L priv pub))
                          (crypt_iv L (word_of_int i) (get_shared_secret L priv pub))]\<rparr>,
            Inr (aes_encrypt L (crypt_tag L (word_of_int i) (get_shared_secret L priv pub))
                   (crypt_iv L (word_of_int i) (get_shared_secret L priv pub)) m))"
proof -
  obtain c where c: "crypt_check L n (get_shared_secret L priv pub) = Inr c"
    using assms by (rule crypt_check_defined)
  obtain c' where c': "crypt_check L (word_of_int i) (get_shared_secret L priv pub) = Inr c'"
    using assms by (rule crypt_check_defined)
  show ?thesis
    by (simp add: decrypt_def crypt_def crypt_with_falsy_checksum [OF c]
        crypt_with_falsy_checksum [OF c'] cryptoJsEncrypt_buffer
        key_material_lengths [OF assms])
qed

theorem zero_checksum_encrypts_ciphertext_witness:
  "digest_lengths demo_library \<and>
   decrypt demo_library demo_world (Some 5) (Some 21) (NLong 77) (MBuffer [1, 2]) (Some 0) =
     (demo_world\<lparr>cipher_log := [Cipheriv (replicate 32 137) (replicate 16 137)]\<rparr>,
      Inr [2, 3, 16]) \<and>
   decrypt demo_library demo_world (Some 5) (Some 21) (NString 77) (MBuffer [1, 2]) (Some 0) =
     (demo_world\<lparr>cipher_log := [Cipheriv (replicate 32 137) (replicate 16 137)]\<rparr>,
      Inr [2, 3, 16])"
  using zero_checksum_encrypts_ciphertext [OF demo_digest_lengths, of demo_world 5 21 77
      "[1, 2]" 77]
  by (simp add: demo_key_material_77 demo_digest_lengths)
     (simp add: demo_library_def demo_world_def)

end
